theory Spec2Isabelle
  imports Complex_Main "HOL-Library.Word" "HOL-Library.Log_Nat"
begin

unbundle bit_operations_syntax

section \<open>Time synchronisation\<close>

text \<open>
  The firmware keeps wall-clock time as a snapshot received over BLE plus the
  milliseconds elapsed on the 32-bit tick counter returned by \<open>millis()\<close>.
  \<open>unsigned long\<close> is 32 bits wide on the ESP32-C3, \<open>uint8_t\<close> and
  \<open>uint16_t\<close> are 8 and 16 bits.  The tick counter is an input of every
  operation that reads it.
\<close>

record SyncedTime =
  st_hour :: "8 word"
  st_minute :: "8 word"
  st_second :: "8 word"
  st_day :: "8 word"
  st_month :: "8 word"
  st_year :: "16 word"
  millisAtSync :: "32 word"
  isValid :: bool

definition elapsedMillis :: "SyncedTime \<Rightarrow> 32 word \<Rightarrow> 32 word" where
  "elapsedMillis st currentMillis =
     (if millisAtSync st \<le> currentMillis then currentMillis - millisAtSync st
      else (0xFFFFFFFF - millisAtSync st) + currentMillis + 1)"

definition getCurrentTime :: "SyncedTime \<Rightarrow> 32 word \<Rightarrow> 8 word \<times> 8 word \<times> 8 word" where
  "getCurrentTime st currentMillis =
     (if \<not> isValid st then (0, 0, 0)
      else
        let elapsedSeconds = elapsedMillis st currentMillis div 1000;
            totalSeconds = ucast (st_second st) + elapsedSeconds;
            second = (ucast (totalSeconds mod 60) :: 8 word);
            totalMinutes = ucast (st_minute st) + totalSeconds div 60;
            minute = (ucast (totalMinutes mod 60) :: 8 word);
            totalHours = ucast (st_hour st) + totalMinutes div 60;
            hour = (ucast (totalHours mod 24) :: 8 word)
        in (hour, minute, second))"

section \<open>Hourly records, accumulator and persistent storage\<close>

record HourlySummary =
  hour :: "8 word"
  avgStress :: "8 word"
  peakStress :: "8 word"
  highStressMins :: "8 word"
  avgHR :: "8 word"
  avgHRV :: "16 word"
  avgGSR :: "16 word"
  sampleCount :: "16 word"
  avgActivityLevel :: "8 word"

record HourlyAccumulator =
  stressSum :: "32 word"
  hrSum :: "32 word"
  hrvSum :: "32 word"
  gsrSum :: "32 word"
  acc_sampleCount :: "16 word"
  hrSampleCount :: "16 word"
  acc_peakStress :: "8 word"
  acc_highStressMins :: "8 word"
  lastMinute :: "8 word"
  highStressThisMinute :: bool
  activitySum :: "32 word"

definition HOURS_PER_DAY :: nat where
  "HOURS_PER_DAY = 24"

definition DAYS_TO_STORE :: nat where
  "DAYS_TO_STORE = 7"

text \<open>
  The \<open>Preferences\<close> flash store holds the byte \<open>currentDay\<close> and one blob
  per key \<open>day0\<close> .. \<open>day6\<close>.  A blob is kept as the list of records
  that was written; its size equals \<open>sizeof(todayData)\<close> exactly when it holds
  \<open>HOURS_PER_DAY\<close> records.  The key \<open>"day" + String(d)\<close> is
  identified with the number \<open>d\<close>.
\<close>

record Preferences =
  pref_currentDay :: "8 word option"
  pref_day :: "nat \<Rightarrow> HourlySummary list option"

definition putUChar_currentDay :: "8 word \<Rightarrow> Preferences \<Rightarrow> Preferences" where
  "putUChar_currentDay d p = p\<lparr>pref_currentDay := Some d\<rparr>"

definition putBytes_day :: "8 word \<Rightarrow> HourlySummary list \<Rightarrow> Preferences \<Rightarrow> Preferences" where
  "putBytes_day d blob p = p\<lparr>pref_day := (pref_day p)(unat d \<mapsto> blob)\<rparr>"

definition zeroSummary :: HourlySummary where
  "zeroSummary = \<lparr>hour = 0, avgStress = 0, peakStress = 0, highStressMins = 0, avgHR = 0,
     avgHRV = 0, avgGSR = 0, sampleCount = 0, avgActivityLevel = 0\<rparr>"

text \<open>\<open>memset(todayData, 0, ...)\<close> followed by the loop that writes the hour fields.\<close>

definition emptyDay :: "HourlySummary list" where
  "emptyDay = map (\<lambda>i. zeroSummary\<lparr>hour := of_nat i\<rparr>) [0..<HOURS_PER_DAY]"

text \<open>\<open>memset(&hourAccum, 0, ...)\<close> followed by \<open>hourAccum.lastMinute = 255\<close>.\<close>

definition resetAccum :: HourlyAccumulator where
  "resetAccum = \<lparr>stressSum = 0, hrSum = 0, hrvSum = 0, gsrSum = 0, acc_sampleCount = 0,
     hrSampleCount = 0, acc_peakStress = 0, acc_highStressMins = 0, lastMinute = 255,
     highStressThisMinute = False, activitySum = 0\<rparr>"

record device =
  syncedTime :: SyncedTime
  lastSyncedDay :: "8 word"
  currentHour :: int
  currentDay :: "8 word"
  todayData :: "HourlySummary list"
  hourAccum :: HourlyAccumulator
  bleHistoryDirty :: bool
  preferences :: Preferences

text \<open>The values of the globals at start-up, after \<open>initStorage\<close> on an empty flash.\<close>

definition device_init :: device where
  "device_init = \<lparr>
     syncedTime = \<lparr>st_hour = 0, st_minute = 0, st_second = 0, st_day = 1, st_month = 1,
       st_year = 2025, millisAtSync = 0, isValid = False\<rparr>,
     lastSyncedDay = 0, currentHour = - 1, currentDay = 0, todayData = emptyDay,
     hourAccum = resetAccum, bleHistoryDirty = True,
     preferences = \<lparr>pref_currentDay = None, pref_day = (\<lambda>d. None)\<rparr>\<rparr>"

definition saveHourlyData :: "int \<Rightarrow> device \<Rightarrow> device" where
  "saveHourlyData h s =
     (if h < 0 \<or> h \<ge> int HOURS_PER_DAY then s
      else if acc_sampleCount (hourAccum s) = 0 then s
      else
        let a = hourAccum s;
            n = (ucast (acc_sampleCount a) :: 32 word);
            nh = (ucast (hrSampleCount a) :: 32 word);
            rec = \<lparr>hour = of_int h,
                   avgStress = ucast (stressSum a div n),
                   peakStress = acc_peakStress a,
                   highStressMins = acc_highStressMins a,
                   avgHR = (if hrSampleCount a > 0 then ucast (hrSum a div nh) else 0),
                   avgHRV = (if hrSampleCount a > 0 then ucast (hrvSum a div nh) else 0),
                   avgGSR = ucast (gsrSum a div n),
                   sampleCount = acc_sampleCount a,
                   avgActivityLevel = ucast (activitySum a div n)\<rparr>;
            td = (todayData s)[nat h := rec]
        in s\<lparr>todayData := td, preferences := putBytes_day (currentDay s) td (preferences s)\<rparr>)"

section \<open>Inbound command\<close>

text \<open>
  The written value is a list of bytes (\<open>char\<close> is unsigned on the ESP32
  targets).  \<open>millis()\<close> is read once when the snapshot is stored and once more
  inside \<open>getCurrentTime\<close>; the two readings are the arguments \<open>t0\<close> and
  \<open>t1\<close>.
\<close>

definition sync_fields_valid :: "16 word \<Rightarrow> 8 word \<Rightarrow> 8 word \<Rightarrow> 8 word \<Rightarrow> 8 word \<Rightarrow> 8 word \<Rightarrow> bool" where
  "sync_fields_valid y mo d h mi sec \<longleftrightarrow>
     y \<ge> 2024 \<and> y \<le> 2100 \<and> mo \<ge> 1 \<and> mo \<le> 12 \<and> d \<ge> 1 \<and> d \<le> 31 \<and>
     h < 24 \<and> mi < 60 \<and> sec < 60"

definition onWrite :: "8 word list \<Rightarrow> 32 word \<Rightarrow> 32 word \<Rightarrow> device \<Rightarrow> device" where
  "onWrite v t0 t1 s =
     (if length v > 0 then
        let command = v ! 0 in
        if command = 0x01 then
          (if length v \<ge> 8 then
             let y = (push_bit 8 (ucast (v ! 2)) OR ucast (v ! 1) :: 16 word);
                 mo = v ! 3; d = v ! 4; h = v ! 5; mi = v ! 6; sec = v ! 7
             in if sync_fields_valid y mo d h mi sec then
                  let st = \<lparr>st_hour = h, st_minute = mi, st_second = sec, st_day = d,
                             st_month = mo, st_year = y, millisAtSync = t0, isValid = True\<rparr>;
                      currentH = fst (getCurrentTime st t1)
                  in s\<lparr>syncedTime := st, lastSyncedDay := d, currentHour := uint currentH\<rparr>
                else s
           else s)
        else if command = 0x02 then s\<lparr>bleHistoryDirty := True\<rparr>
        else s
      else s)"

section \<open>Hour change and day rollover\<close>

definition checkHourChange :: "32 word \<Rightarrow> device \<Rightarrow> device" where
  "checkHourChange currentMillis s =
     (let newHour = (if isValid (syncedTime s)
                     then uint (fst (getCurrentTime (syncedTime s) currentMillis))
                     else uint ((currentMillis div 3600000) mod 24))
      in if currentHour s = - 1 then s\<lparr>currentHour := newHour\<rparr>
         else if newHour \<noteq> currentHour s then
           let oldHour = currentHour s;
               s1 = saveHourlyData (currentHour s) s;
               s2 = s1\<lparr>bleHistoryDirty := True, hourAccum := resetAccum, currentHour := newHour\<rparr>;
               dayRollover =
                 (if isValid (syncedTime s2) then st_day (syncedTime s2) \<noteq> lastSyncedDay s2
                  else newHour = 0 \<and> oldHour = 23);
               s3 = (if isValid (syncedTime s2) \<and> st_day (syncedTime s2) \<noteq> lastSyncedDay s2
                     then s2\<lparr>lastSyncedDay := st_day (syncedTime s2)\<rparr> else s2)
           in if dayRollover then
                let d = (of_nat ((unat (currentDay s3) + 1) mod DAYS_TO_STORE) :: 8 word)
                in s3\<lparr>currentDay := d,
                      preferences := putUChar_currentDay d (preferences s3),
                      todayData := emptyDay\<rparr>
              else s3
         else s)"

section \<open>Protocol codec\<close>

subsection \<open>Today record\<close>

definition today_flags :: "HourlySummary \<Rightarrow> 8 word" where
  "today_flags r =
     (if sampleCount r > 0 then 0x01 else 0x00) OR push_bit 1 (avgActivityLevel r AND 0x03)"

definition packTodayHour :: "HourlySummary list \<Rightarrow> nat \<Rightarrow> 8 word list \<Rightarrow> 8 word list" where
  "packTodayHour td i buffer =
     (let offset = i * 10; r = td ! i
      in buffer
         [offset + 0 := hour r,
          offset + 1 := avgStress r,
          offset + 2 := peakStress r,
          offset + 3 := highStressMins r,
          offset + 4 := avgHR r,
          offset + 5 := ucast (avgHRV r AND 0xFF),
          offset + 6 := ucast (drop_bit 8 (avgHRV r) AND 0xFF),
          offset + 7 := ucast (avgGSR r AND 0xFF),
          offset + 8 := ucast (drop_bit 8 (avgGSR r) AND 0xFF),
          offset + 9 := today_flags r])"

definition packTodayData :: "HourlySummary list \<Rightarrow> 8 word list \<Rightarrow> 8 word list" where
  "packTodayData td buffer = foldl (\<lambda>b i. packTodayHour td i b) buffer [0..<HOURS_PER_DAY]"

text \<open>
  The reader of the today record, written from the documented layout: ten bytes per
  hour, 16-bit fields little-endian, flag bit 0 the validity, bits 1 and 2 the
  activity level.
\<close>

record TodayEntry =
  te_hour :: "8 word"
  te_avgStress :: "8 word"
  te_peakStress :: "8 word"
  te_highStressMins :: "8 word"
  te_avgHR :: "8 word"
  te_avgHRV :: "16 word"
  te_avgGSR :: "16 word"
  te_valid :: bool
  te_activity :: "8 word"

definition u16_le :: "8 word \<Rightarrow> 8 word \<Rightarrow> 16 word" where
  "u16_le lo hi = ucast lo OR push_bit 8 (ucast hi)"

definition decodeTodayEntry :: "8 word list \<Rightarrow> nat \<Rightarrow> TodayEntry" where
  "decodeTodayEntry buffer i =
     (let b = take 10 (drop (10 * i) buffer)
      in \<lparr>te_hour = b ! 0, te_avgStress = b ! 1, te_peakStress = b ! 2,
          te_highStressMins = b ! 3, te_avgHR = b ! 4,
          te_avgHRV = u16_le (b ! 5) (b ! 6), te_avgGSR = u16_le (b ! 7) (b ! 8),
          te_valid = bit (b ! 9) 0, te_activity = drop_bit 1 (b ! 9) AND 0x03\<rparr>)"

subsection \<open>Week record\<close>

record DayAgg =
  agg_stressSum :: "32 word"
  agg_hrSum :: "32 word"
  agg_hrvSum :: "32 word"
  agg_peakStress :: "8 word"
  agg_peakHour :: "8 word"
  agg_highMins :: "8 word"
  agg_validHours :: int

definition agg_zero :: DayAgg where
  "agg_zero = \<lparr>agg_stressSum = 0, agg_hrSum = 0, agg_hrvSum = 0, agg_peakStress = 0,
     agg_peakHour = 0, agg_highMins = 0, agg_validHours = 0\<rparr>"

definition aggHour :: "HourlySummary list \<Rightarrow> DayAgg \<Rightarrow> nat \<Rightarrow> DayAgg" where
  "aggHour dayData a h =
     (let r = dayData ! h in
      if sampleCount r > 0 then
        let a1 = a\<lparr>agg_stressSum := agg_stressSum a + ucast (avgStress r),
                   agg_hrSum := agg_hrSum a + ucast (avgHR r),
                   agg_hrvSum := agg_hrvSum a + ucast (avgHRV r),
                   agg_highMins := agg_highMins a + highStressMins r,
                   agg_validHours := agg_validHours a + 1\<rparr>
        in if peakStress r > agg_peakStress a1
           then a1\<lparr>agg_peakStress := peakStress r, agg_peakHour := of_nat h\<rparr>
           else a1
      else a)"

definition aggregateDay :: "Preferences \<Rightarrow> nat \<Rightarrow> DayAgg" where
  "aggregateDay p d =
     (case pref_day p d of
        None \<Rightarrow> agg_zero
      | Some dayData \<Rightarrow>
          if length dayData = HOURS_PER_DAY
          then foldl (aggHour dayData) agg_zero [0..<HOURS_PER_DAY]
          else agg_zero)"

definition packWeekDay :: "Preferences \<Rightarrow> nat \<Rightarrow> 8 word list \<Rightarrow> 8 word list" where
  "packWeekDay p d buffer =
     (let offset = d * 10; a = aggregateDay p d;
          n = (word_of_int (agg_validHours a) :: 32 word);
          valid = (agg_validHours a > 0)
      in buffer
         [offset + 0 := of_nat d,
          offset + 1 := (if valid then ucast (agg_stressSum a div n) else 0),
          offset + 2 := agg_peakStress a,
          offset + 3 := agg_peakHour a,
          offset + 4 := agg_highMins a,
          offset + 5 := (if valid then ucast (agg_hrSum a div n) else 0),
          offset + 6 := (if valid then ucast ((agg_hrvSum a div n) AND 0xFF) else 0),
          offset + 7 := (if valid then ucast (drop_bit 8 (agg_hrvSum a div n) AND 0xFF) else 0),
          offset + 8 := 0,
          offset + 9 := (if valid then 0x01 else 0x00)])"

definition packWeekData :: "Preferences \<Rightarrow> 8 word list \<Rightarrow> 8 word list" where
  "packWeekData p buffer = foldl (\<lambda>b d. packWeekDay p d b) buffer [0..<DAYS_TO_STORE]"

section \<open>Heart-rate variability\<close>

subsection \<open>Single-precision arithmetic of the outlier test\<close>

text \<open>
  The outlier test \<open>abs(rrIntervalMs - prevBeat) / (float)prevBeat > 0.20\<close>
  divides two \<open>float\<close> values and compares the \<open>float\<close> quotient with the
  \<open>double\<close> constant nearest to \<open>0.20\<close>.  Its outcome is a branch of the
  program, so the rounding is modelled exactly: a finite binary32 value is the
  rational it denotes, \<open>f32_round\<close> rounds a rational to the nearest binary32
  value, ties to even.  The operands here are conversions of 32-bit integers, so no
  quotient overflows the binary32 range.
\<close>

definition round_ne :: "rat \<Rightarrow> int" where
  "round_ne q =
     (let f = \<lfloor>q\<rfloor>; r = q - of_int f
      in if r < 1 / 2 then f else if 1 / 2 < r then f + 1
         else if even f then f else f + 1)"

definition ilog2 :: "rat \<Rightarrow> int" where
  "ilog2 q = (if 1 \<le> q then bitlen \<lfloor>q\<rfloor> - 1 else - bitlen (\<lceil>1 / q\<rceil> - 1))"

definition pow2 :: "int \<Rightarrow> rat" where
  "pow2 e = (if 0 \<le> e then 2 ^ nat e else 1 / 2 ^ nat (- e))"

definition f32_round :: "rat \<Rightarrow> rat" where
  "f32_round q =
     (if q = 0 then 0
      else let e = max (ilog2 \<bar>q\<bar>) (- 126);
               ulp = pow2 (e - 23);
               m = round_ne (\<bar>q\<bar> / ulp)
           in sgn q * of_int m * ulp)"

text \<open>The \<open>double\<close> nearest to \<open>0.20\<close>, bit pattern \<open>0x3FC999999999999A\<close>.\<close>

definition DBL_0_20 :: rat where
  "DBL_0_20 = 3602879701896397 / 18014398509481984"

text \<open>
  A division by \<open>+0.0f\<close> gives \<open>+inf\<close> for a positive dividend, which
  exceeds the constant, and NaN for a zero dividend, which compares false.
\<close>

definition rr_outlier :: "int \<Rightarrow> int \<Rightarrow> bool" where
  "rr_outlier rrIntervalMs prevBeat =
     (let a = f32_round (of_int \<bar>rrIntervalMs - prevBeat\<bar>);
          b = f32_round (of_int prevBeat)
      in if b = 0 then 0 < a else DBL_0_20 < f32_round (a / b))"

subsection \<open>RR ring buffer and RMSSD\<close>

text \<open>
  \<open>float\<close> quantities whose value (not a branch) is the subject are modelled as
  reals: the result of \<open>sqrt\<close>, means and exponential averages.  \<open>int\<close> and
  \<open>long\<close> are 32 bits wide; they are modelled as integers, and
  \<open>sumSq_no_overflow\<close> below shows that the sum of squares stays in range on
  every reachable buffer.
\<close>

definition BUFFER_SIZE :: nat where
  "BUFFER_SIZE = 30"

definition HRV_WARMUP_COUNT :: nat where
  "HRV_WARMUP_COUNT = 20"

definition hrvLearningRate :: real where
  "hrvLearningRate = 0.01"

definition PEAK_BUFFER_SIZE :: nat where
  "PEAK_BUFFER_SIZE = 10"

record hr_state =
  rrBuffer :: "int list"
  head :: nat
  count :: nat
  currentHRV :: real
  longTermHRV :: real
  peakTimes :: "32 word list"
  peakIndex :: nat
  peakCount :: nat
  currentBPM :: real
  lastPeakTime :: "32 word"
  lastValue :: int
  peakThreshold :: int
  peakDetected :: bool
  runningAvg :: int
  irSampleCount :: int
  lastBeatTime :: "32 word"

definition hr_init :: hr_state where
  "hr_init = \<lparr>rrBuffer = replicate BUFFER_SIZE 0, head = 0, count = 0, currentHRV = 0,
     longTermHRV = 50, peakTimes = replicate PEAK_BUFFER_SIZE 0, peakIndex = 0,
     peakCount = 0, currentBPM = 0, lastPeakTime = 0, lastValue = 0, peakThreshold = 0,
     peakDetected = False, runningAvg = 0, irSampleCount = 0, lastBeatTime = 0\<rparr>"

text \<open>Index of the \<open>i\<close>-th oldest stored interval: \<open>(head - count + i + BUFFER_SIZE) % BUFFER_SIZE\<close>.\<close>

definition rr_index :: "hr_state \<Rightarrow> nat \<Rightarrow> nat" where
  "rr_index s i = (head s + i + BUFFER_SIZE - count s) mod BUFFER_SIZE"

definition sumSq_step :: "hr_state \<Rightarrow> int \<Rightarrow> nat \<Rightarrow> int" where
  "sumSq_step s sumSq i =
     (let cur = rr_index s i; nxt = rr_index s (i + 1);
          diff = rrBuffer s ! nxt - rrBuffer s ! cur
      in sumSq + diff * diff)"

definition sumSq_loop :: "hr_state \<Rightarrow> int" where
  "sumSq_loop s = foldl (sumSq_step s) 0 [0..<count s - 1]"

definition calculateRMSSD :: "hr_state \<Rightarrow> real" where
  "calculateRMSSD s =
     (if count s < 2 then 0
      else sqrt (of_int (sumSq_loop s) / of_int (int (count s) - 1)))"

definition prevBeat_of :: "hr_state \<Rightarrow> int" where
  "prevBeat_of s = rrBuffer s ! ((head s + BUFFER_SIZE - 1) mod BUFFER_SIZE)"

text \<open>The value that \<open>addRRInterval\<close> writes into the slot at \<open>head\<close>.\<close>

definition rr_stored :: "int \<Rightarrow> hr_state \<Rightarrow> int" where
  "rr_stored rrIntervalMs s =
     (if count s > 0 then
        (if rr_outlier rrIntervalMs (prevBeat_of s) then prevBeat_of s else rrIntervalMs)
      else rrIntervalMs)"

definition addRRInterval :: "int \<Rightarrow> hr_state \<Rightarrow> hr_state" where
  "addRRInterval rrIntervalMs s =
     (let s1 = s\<lparr>rrBuffer := (rrBuffer s)[head s := rr_stored rrIntervalMs s],
                 head := (head s + 1) mod BUFFER_SIZE,
                 count := (if count s < BUFFER_SIZE then count s + 1 else count s)\<rparr>
      in if count s1 \<ge> HRV_WARMUP_COUNT then
           let h = calculateRMSSD s1
           in s1\<lparr>currentHRV := h,
                 longTermHRV := hrvLearningRate * h + (1 - hrvLearningRate) * longTermHRV s1\<rparr>
         else s1)"

text \<open>
  The reading of the specification: the stored intervals, oldest first, and the root
  of the mean squared successive difference of a list of intervals.
\<close>

definition rr_window :: "hr_state \<Rightarrow> int list" where
  "rr_window s = map (\<lambda>i. rrBuffer s ! rr_index s i) [0..<count s]"


section \<open>Beat detection and BPM\<close>

text \<open>C division of \<open>long\<close> values truncates towards zero.\<close>

definition c_div :: "int \<Rightarrow> int \<Rightarrow> int" where
  "c_div a b = sgn a * sgn b * (\<bar>a\<bar> div \<bar>b\<bar>)"

text \<open>
  Conversion of a \<open>double\<close> to \<open>long\<close> truncates towards zero.  The
  threshold \<open>minValue + (maxValue - minValue) * 0.6\<close> is taken over the reals;
  it decides which samples are beats and is an input of every statement below.
\<close>

definition c_trunc :: "real \<Rightarrow> int" where
  "c_trunc x = (if 0 \<le> x then \<lfloor>x\<rfloor> else \<lceil>x\<rceil>)"

definition bpm_interval :: "hr_state \<Rightarrow> nat \<Rightarrow> 32 word" where
  "bpm_interval s i =
     (let prevIndex = (peakIndex s + PEAK_BUFFER_SIZE - i - 1) mod PEAK_BUFFER_SIZE;
          currIndex = (peakIndex s + PEAK_BUFFER_SIZE - i) mod PEAK_BUFFER_SIZE
      in peakTimes s ! currIndex - peakTimes s ! prevIndex)"

definition bpm_step :: "hr_state \<Rightarrow> 32 word \<times> int \<Rightarrow> nat \<Rightarrow> 32 word \<times> int" where
  "bpm_step s acc i =
     (let interval = bpm_interval s i
      in if interval > 250 \<and> interval < 2000 then (fst acc + interval, snd acc + 1) else acc)"

definition calculateBPM :: "hr_state \<Rightarrow> hr_state" where
  "calculateBPM s =
     (if peakCount s \<ge> 3 then
        let acc = foldl (bpm_step s) (0, 0) [1..<peakCount s];
            totalInterval = fst acc; validIntervals = snd acc
        in if validIntervals > 0 then
             let avgInterval = real (unat totalInterval) / of_int validIntervals;
                 bpm = 60000 / avgInterval;
                 bpm1 = (if bpm < 40 then 0 else bpm);
                 bpm2 = (if bpm1 > 200 then 0 else bpm1)
             in s\<lparr>currentBPM := bpm2\<rparr>
           else s
      else s)"

definition beat_detected :: "int \<Rightarrow> 32 word \<Rightarrow> hr_state \<Rightarrow> bool" where
  "beat_detected irValue currentTime s \<longleftrightarrow>
     irValue > lastValue s \<and> irValue > peakThreshold s \<and> \<not> peakDetected s \<and>
     currentTime - lastPeakTime s > 300"

text \<open>
  The body of the branch taken on a beat, in the order of the source: arm the flag
  and note the time, hand the RR interval to the HRV estimator, store the peak time,
  recompute the BPM.
\<close>

definition extract_rr :: "32 word \<Rightarrow> hr_state \<Rightarrow> hr_state" where
  "extract_rr currentTime s =
     (let s2 = (if lastBeatTime s > 0 then
                  let rrInterval = currentTime - lastBeatTime s
                  in if rrInterval \<ge> 300 \<and> rrInterval \<le> 2000
                     then addRRInterval (uint rrInterval) s else s
                else s)
      in s2\<lparr>lastBeatTime := currentTime\<rparr>)"

definition store_peak :: "32 word \<Rightarrow> hr_state \<Rightarrow> hr_state" where
  "store_peak currentTime s =
     s\<lparr>peakTimes := (peakTimes s)[peakIndex s := currentTime],
       peakIndex := (peakIndex s + 1) mod PEAK_BUFFER_SIZE,
       peakCount := (if peakCount s < PEAK_BUFFER_SIZE then peakCount s + 1 else peakCount s)\<rparr>"

definition onBeat :: "32 word \<Rightarrow> hr_state \<Rightarrow> hr_state" where
  "onBeat currentTime s =
     calculateBPM (store_peak currentTime (extract_rr currentTime
       (s\<lparr>peakDetected := True, lastPeakTime := currentTime\<rparr>)))"

text \<open>
  \<open>minValue\<close> and \<open>maxValue\<close> are the extremes of the IR buffer that
  \<open>updateHeartRate\<close> computes before the call; \<open>currentTime\<close> is the value of
  \<open>millis()\<close>.
\<close>

definition update_threshold :: "int \<Rightarrow> int \<Rightarrow> int \<Rightarrow> hr_state \<Rightarrow> hr_state" where
  "update_threshold irValue minValue maxValue s =
     s\<lparr>runningAvg := c_div (runningAvg s * irSampleCount s + irValue) (irSampleCount s + 1),
       irSampleCount := (if irSampleCount s + 1 > 100 then 100 else irSampleCount s + 1),
       peakThreshold := c_trunc (of_int minValue + of_int (maxValue - minValue) * 0.6)\<rparr>"

definition detectPeakAndCalculateBPM :: "int \<Rightarrow> int \<Rightarrow> int \<Rightarrow> 32 word \<Rightarrow> hr_state \<Rightarrow> hr_state" where
  "detectPeakAndCalculateBPM irValue minValue maxValue currentTime s =
     (let s1 = update_threshold irValue minValue maxValue s;
          s2 = (if beat_detected irValue currentTime s1 then onBeat currentTime s1 else s1);
          s3 = (if irValue < lastValue s2 then s2\<lparr>peakDetected := False\<rparr> else s2)
      in s3\<lparr>lastValue := irValue\<rparr>)"

text \<open>The part of \<open>wakeFromPowerOff\<close> that resets the beat detector.\<close>

definition wakeFromPowerOff :: "hr_state \<Rightarrow> hr_state" where
  "wakeFromPowerOff s =
     s\<lparr>peakTimes := replicate PEAK_BUFFER_SIZE 0, peakIndex := 0, peakCount := 0,
       currentBPM := 0, lastPeakTime := 0, lastValue := 0, peakThreshold := 0,
       peakDetected := False, runningAvg := 0, irSampleCount := 0, lastBeatTime := 0\<rparr>"

inductive hr_reachable :: "hr_state \<Rightarrow> bool" where
  hr_start: "hr_reachable hr_init"
| hr_sample: "hr_reachable s \<Longrightarrow>
     hr_reachable (detectPeakAndCalculateBPM irValue minValue maxValue currentTime s)"
| hr_wake: "hr_reachable s \<Longrightarrow> hr_reachable (wakeFromPowerOff s)"

text \<open>
  The reading of the specification: an interval is valid within \<open>[250, 2000)\<close>,
  the BPM is 60000 over the mean of the valid consecutive peak-to-peak intervals, a
  value outside \<open>[40, 200]\<close> is reported as 0, and without a valid interval the
  previous value stays.
\<close>

definition valid_interval :: "nat \<Rightarrow> bool" where
  "valid_interval d \<longleftrightarrow> 250 \<le> d \<and> d < 2000"

definition peak_intervals :: "hr_state \<Rightarrow> nat list" where
  "peak_intervals s = map (\<lambda>i. unat (bpm_interval s i)) [1..<peakCount s]"

definition bpm_spec :: "real \<Rightarrow> nat list \<Rightarrow> real" where
  "bpm_spec previous ds =
     (let vs = filter valid_interval ds
      in if vs = [] then previous
         else let b = 60000 / (real (sum_list vs) / real (length vs))
              in if b < 40 \<or> 200 < b then 0 else b)"

section \<open>Stress fusion\<close>

subsection \<open>Floating-point arithmetic\<close>

text \<open>
  The fusion engine computes on \<open>float\<close> variables, with \<open>double\<close>
  intermediate results wherever a \<open>double\<close> literal takes part, and it branches
  on the results.  The two formats are therefore modelled exactly: a value is a
  rational, an infinity or NaN; an operation computes the exact result and rounds it
  to the destination format (round to nearest, ties to even, gradual underflow,
  overflow to an infinity).  Zeros carry no sign: the only divisions whose divisor can
  be zero are those of \<open>mapFloat\<close>, where the divisor is a difference
  \<open>x - x\<close>, that is \<open>+0\<close>.
\<close>

definition bin_round :: "nat \<Rightarrow> int \<Rightarrow> rat \<Rightarrow> rat" where
  "bin_round p emin q =
     (if q = 0 then 0
      else let e = max (ilog2 \<bar>q\<bar>) emin;
               ulp = pow2 (e - int p);
               m = round_ne (\<bar>q\<bar> / ulp)
           in sgn q * of_int m * ulp)"

text \<open>The unit in the last place of the format at a positive number.\<close>

definition ulp_of :: "nat \<Rightarrow> int \<Rightarrow> rat \<Rightarrow> rat" where
  "ulp_of p emin x = pow2 (max (ilog2 x) emin - int p)"

datatype fp = Fin rat | PInf | NInf | NaN

text \<open>
  Rounding into a format with \<open>p\<close> fraction bits and exponents from
  \<open>emin\<close> to \<open>emax\<close>; binary32 is \<open>(23, -126, 127)\<close>, binary64
  \<open>(52, -1022, 1023)\<close>.
\<close>

definition to_fp :: "nat \<Rightarrow> int \<Rightarrow> int \<Rightarrow> rat \<Rightarrow> fp" where
  "to_fp p emin emax q =
     (let r = bin_round p emin q
      in if pow2 (emax + 1) \<le> \<bar>r\<bar> then (if 0 < q then PInf else NInf) else Fin r)"

definition to_f32 :: "rat \<Rightarrow> fp" where
  "to_f32 = to_fp 23 (- 126) 127"

definition to_f64 :: "rat \<Rightarrow> fp" where
  "to_f64 = to_fp 52 (- 1022) 1023"

text \<open>
  The operations take the rounding of their destination format as first argument:
  \<open>to_f32\<close> when both operands are \<open>float\<close>, \<open>to_f64\<close> when one
  is a \<open>double\<close>.
\<close>

fun fneg :: "fp \<Rightarrow> fp" where
  "fneg (Fin x) = Fin (- x)"
| "fneg PInf = NInf"
| "fneg NInf = PInf"
| "fneg NaN = NaN"

fun fabs :: "fp \<Rightarrow> fp" where
  "fabs (Fin x) = Fin \<bar>x\<bar>"
| "fabs PInf = PInf"
| "fabs NInf = PInf"
| "fabs NaN = NaN"

fun fadd :: "(rat \<Rightarrow> fp) \<Rightarrow> fp \<Rightarrow> fp \<Rightarrow> fp" where
  "fadd rnd (Fin x) (Fin y) = rnd (x + y)"
| "fadd rnd NaN b = NaN"
| "fadd rnd a NaN = NaN"
| "fadd rnd PInf NInf = NaN"
| "fadd rnd NInf PInf = NaN"
| "fadd rnd PInf b = PInf"
| "fadd rnd a PInf = PInf"
| "fadd rnd NInf b = NInf"
| "fadd rnd a NInf = NInf"

definition fsub :: "(rat \<Rightarrow> fp) \<Rightarrow> fp \<Rightarrow> fp \<Rightarrow> fp" where
  "fsub rnd a b = fadd rnd a (fneg b)"

fun fmul :: "(rat \<Rightarrow> fp) \<Rightarrow> fp \<Rightarrow> fp \<Rightarrow> fp" where
  "fmul rnd (Fin x) (Fin y) = rnd (x * y)"
| "fmul rnd NaN b = NaN"
| "fmul rnd a NaN = NaN"
| "fmul rnd (Fin x) PInf = (if x = 0 then NaN else if 0 < x then PInf else NInf)"
| "fmul rnd (Fin x) NInf = (if x = 0 then NaN else if 0 < x then NInf else PInf)"
| "fmul rnd PInf (Fin y) = (if y = 0 then NaN else if 0 < y then PInf else NInf)"
| "fmul rnd NInf (Fin y) = (if y = 0 then NaN else if 0 < y then NInf else PInf)"
| "fmul rnd PInf PInf = PInf"
| "fmul rnd PInf NInf = NInf"
| "fmul rnd NInf PInf = NInf"
| "fmul rnd NInf NInf = PInf"

fun fdiv :: "(rat \<Rightarrow> fp) \<Rightarrow> fp \<Rightarrow> fp \<Rightarrow> fp" where
  "fdiv rnd (Fin x) (Fin y) =
     (if y = 0 then (if x = 0 then NaN else if 0 < x then PInf else NInf)
      else rnd (x / y))"
| "fdiv rnd NaN b = NaN"
| "fdiv rnd a NaN = NaN"
| "fdiv rnd (Fin x) PInf = Fin 0"
| "fdiv rnd (Fin x) NInf = Fin 0"
| "fdiv rnd PInf (Fin y) = (if 0 \<le> y then PInf else NInf)"
| "fdiv rnd NInf (Fin y) = (if 0 \<le> y then NInf else PInf)"
| "fdiv rnd PInf PInf = NaN"
| "fdiv rnd PInf NInf = NaN"
| "fdiv rnd NInf PInf = NaN"
| "fdiv rnd NInf NInf = NaN"

text \<open>The comparison \<open>a < b\<close>; a comparison with NaN is false.\<close>

fun flt :: "fp \<Rightarrow> fp \<Rightarrow> bool" where
  "flt (Fin x) (Fin y) \<longleftrightarrow> x < y"
| "flt NaN b \<longleftrightarrow> False"
| "flt a NaN \<longleftrightarrow> False"
| "flt PInf b \<longleftrightarrow> False"
| "flt NInf NInf \<longleftrightarrow> False"
| "flt NInf b \<longleftrightarrow> True"
| "flt (Fin x) PInf \<longleftrightarrow> True"
| "flt (Fin x) NInf \<longleftrightarrow> False"

definition fgt :: "fp \<Rightarrow> fp \<Rightarrow> bool" where
  "fgt a b \<longleftrightarrow> flt b a"

text \<open>
  The conversion of a \<open>double\<close> to \<open>float\<close> (an assignment to a
  \<open>float\<close> variable, a \<open>float\<close> parameter); the conversion of a
  \<open>float\<close> to \<open>double\<close> changes no value.  A \<open>double\<close> literal is the
  \<open>double\<close> nearest to the decimal, a \<open>float\<close> initialised from it that
  \<open>double\<close> converted.
\<close>

fun to_float :: "fp \<Rightarrow> fp" where
  "to_float (Fin x) = to_f32 x"
| "to_float PInf = PInf"
| "to_float NInf = NInf"
| "to_float NaN = NaN"

definition dbl_lit :: "rat \<Rightarrow> fp" where
  "dbl_lit q = to_f64 q"

definition flt_lit :: "rat \<Rightarrow> fp" where
  "flt_lit q = to_float (dbl_lit q)"

subsection \<open>The fusion engine\<close>

text \<open>
  The readings \<open>calculateStressIndex\<close> takes from the other components (their
  globals at the time of the call, finite \<open>float\<close> values) are collected in
  \<open>readings\<close>; the globals and function-local statics it owns are the fields of
  \<open>fusion_state\<close>.
\<close>

datatype ActivityLevel = STILL | LIGHT | ACTIVE | EXERCISE

fun HRV_ACTIVITY_MULTIPLIER :: "ActivityLevel \<Rightarrow> fp" where
  "HRV_ACTIVITY_MULTIPLIER STILL = flt_lit 1"
| "HRV_ACTIVITY_MULTIPLIER LIGHT = flt_lit (95 / 100)"
| "HRV_ACTIVITY_MULTIPLIER ACTIVE = flt_lit (80 / 100)"
| "HRV_ACTIVITY_MULTIPLIER EXERCISE = flt_lit (65 / 100)"

definition mapFloat :: "fp \<Rightarrow> fp \<Rightarrow> fp \<Rightarrow> fp \<Rightarrow> fp \<Rightarrow> fp" where
  "mapFloat x in_min in_max out_min out_max =
     fadd to_f32
       (fdiv to_f32 (fmul to_f32 (fsub to_f32 x in_min) (fsub to_f32 out_max out_min))
          (fsub to_f32 in_max in_min))
       out_min"

text \<open>
  The macro \<open>((amt)<(low)?(low):((amt)>(high)?(high):(amt)))\<close>: both comparisons
  are false for NaN, which it returns unchanged.
\<close>

definition constrain :: "fp \<Rightarrow> fp \<Rightarrow> fp \<Rightarrow> fp" where
  "constrain amt low high = (if flt amt low then low else if fgt amt high then high else amt)"

record readings =
  hrSensorActive :: bool
  rd_count :: nat
  rd_currentHRV :: rat
  rd_longTermHRV :: rat
  currentActivity :: ActivityLevel
  currentGSR :: rat
  baselineGSR :: rat
  currentHR :: "8 word"
  motionVariance :: rat

record fusion_state =
  gsrMaxSwing :: fp
  physiologicalToMotionRatio :: fp
  previousHR :: fp
  previousGSR :: fp
  smoothedStressData :: fp
  smoothedStressDisplay :: fp
  previousAdjustedStress :: fp
  stressIndex :: fp
  stressIndexDisplay :: fp

definition fusion_init :: fusion_state where
  "fusion_init = \<lparr>gsrMaxSwing = Fin 100, physiologicalToMotionRatio = Fin 0,
     previousHR = Fin 0, previousGSR = Fin 0, smoothedStressData = Fin 0,
     smoothedStressDisplay = Fin 0, previousAdjustedStress = Fin 0, stressIndex = Fin 0,
     stressIndexDisplay = Fin 0\<rparr>"

definition hrv_available :: "readings \<Rightarrow> bool" where
  "hrv_available r \<longleftrightarrow> hrSensorActive r \<and> rd_count r \<ge> HRV_WARMUP_COUNT"

definition activityAdjustedHRVBaseline :: "readings \<Rightarrow> fp" where
  "activityAdjustedHRVBaseline r =
     fmul to_f32 (Fin (rd_longTermHRV r)) (HRV_ACTIVITY_MULTIPLIER (currentActivity r))"

definition hrvScore_of :: "readings \<Rightarrow> fp" where
  "hrvScore_of r =
     (let base = activityAdjustedHRVBaseline r
      in if hrv_available r
         then constrain (mapFloat (Fin (rd_currentHRV r))
                           (to_float (fmul to_f64 base (dbl_lit (4 / 10)))) base (Fin 100) (Fin 0))
                (Fin 0) (Fin 100)
         else Fin 0)"

definition gsrDiff_of :: "readings \<Rightarrow> fp" where
  "gsrDiff_of r = fabs (fsub to_f32 (Fin (currentGSR r)) (Fin (baselineGSR r)))"

definition gsrMaxSwing_next :: "readings \<Rightarrow> fusion_state \<Rightarrow> fp" where
  "gsrMaxSwing_next r s =
     (let gsrDiff = gsrDiff_of r
      in if fgt gsrDiff (gsrMaxSwing s)
         then to_float (fadd to_f64 (fmul to_f64 (dbl_lit (1 / 10)) gsrDiff)
                                    (fmul to_f64 (dbl_lit (9 / 10)) (gsrMaxSwing s)))
         else gsrMaxSwing s)"

definition gsrScore_of :: "readings \<Rightarrow> fusion_state \<Rightarrow> fp" where
  "gsrScore_of r s =
     constrain (fmul to_f32 (fdiv to_f32 (gsrDiff_of r) (gsrMaxSwing_next r s)) (Fin 100))
       (Fin 0) (Fin 100)"

definition pmr_of :: "readings \<Rightarrow> fusion_state \<Rightarrow> fp" where
  "pmr_of r s =
     (let hrChange = fabs (fsub to_f32 (Fin (of_nat (unat (currentHR r)))) (previousHR s));
          gsrChange = fabs (fsub to_f32 (Fin (currentGSR r)) (previousGSR s));
          normalizedMotion = to_float (fadd to_f64 (Fin (motionVariance r)) (dbl_lit (1 / 1000)))
      in if fgt normalizedMotion (dbl_lit (1 / 1000))
         then constrain
                (to_float (fdiv to_f64
                   (fadd to_f64 (fmul to_f64 hrChange (dbl_lit (1 / 2)))
                                (fmul to_f64 gsrChange (dbl_lit (1 / 2))))
                   normalizedMotion))
                (Fin 0) (Fin 1000)
         else to_float (fmul to_f64 (fadd to_f32 hrChange gsrChange) (dbl_lit 10)))"

definition activityWeight_of :: "ActivityLevel \<Rightarrow> fp \<Rightarrow> fp" where
  "activityWeight_of a pmr =
     (if a = EXERCISE then (if fgt pmr (dbl_lit 50) then flt_lit (4 / 10) else flt_lit (3 / 10))
      else if a = ACTIVE then (if fgt pmr (dbl_lit 30) then flt_lit (6 / 10) else flt_lit (5 / 10))
      else if a = LIGHT then (if fgt pmr (dbl_lit 20) then flt_lit (9 / 10) else flt_lit (8 / 10))
      else (if fgt pmr (dbl_lit 15) then flt_lit (11 / 10) else flt_lit 1))"

definition rawStress_of :: "readings \<Rightarrow> fusion_state \<Rightarrow> fp" where
  "rawStress_of r s =
     (let hrvScore = hrvScore_of r;
          gsrScore = gsrScore_of r s
      in if hrv_available r
         then to_float (fadd to_f64 (fmul to_f64 (dbl_lit (6 / 10)) hrvScore)
                                    (fmul to_f64 (dbl_lit (4 / 10)) gsrScore))
         else gsrScore)"

definition adjustedStress_of :: "readings \<Rightarrow> fusion_state \<Rightarrow> fp" where
  "adjustedStress_of r s =
     constrain (fmul to_f32 (rawStress_of r s) (activityWeight_of (currentActivity r) (pmr_of r s)))
       (Fin 0) (Fin 100)"

definition DATA_ALPHA :: fp where
  "DATA_ALPHA = flt_lit (90 / 100)"

text \<open>
  The smoothing \<open>(alpha * adjustedStress) + ((1.0 - alpha) * smoothed)\<close> with a
  \<open>float\<close> \<open>alpha\<close>: the first product is a \<open>float\<close>, the rest is
  computed in \<open>double\<close> and stored in a \<open>float\<close>.
\<close>

definition smooth :: "fp \<Rightarrow> fp \<Rightarrow> fp \<Rightarrow> fp" where
  "smooth alpha adjustedStress smoothed =
     to_float (fadd to_f64 (fmul to_f32 alpha adjustedStress)
                           (fmul to_f64 (fsub to_f64 (dbl_lit 1) alpha) smoothed))"

text \<open>
  One call of \<open>calculateStressIndex\<close> together with the assignment
  \<open>stressIndex = calculateStressIndex()\<close> of the main loop.
\<close>

definition calculateStressIndex :: "readings \<Rightarrow> fusion_state \<Rightarrow> fusion_state" where
  "calculateStressIndex r s =
     (let adjustedStress = adjustedStress_of r s;
          data = smooth DATA_ALPHA adjustedStress (smoothedStressData s);
          changeRate = fabs (fsub to_f32 adjustedStress (smoothedStressDisplay s));
          changeAcceleration = fabs (fsub to_f32 adjustedStress (previousAdjustedStress s));
          anxietyDetected = (fgt adjustedStress (dbl_lit 60) \<and> fgt changeRate (dbl_lit 10) \<and>
                             fgt changeAcceleration (dbl_lit 6));
          displayAlpha = (if anxietyDetected then flt_lit (90 / 100) else flt_lit (40 / 100));
          disp = smooth displayAlpha adjustedStress (smoothedStressDisplay s)
      in \<lparr>gsrMaxSwing = gsrMaxSwing_next r s,
          physiologicalToMotionRatio = pmr_of r s,
          previousHR = Fin (of_nat (unat (currentHR r))),
          previousGSR = Fin (currentGSR r),
          smoothedStressData = data,
          smoothedStressDisplay = disp,
          previousAdjustedStress = adjustedStress,
          stressIndex = data,
          stressIndexDisplay = disp\<rparr>)"

definition run_cycles :: "readings list \<Rightarrow> fusion_state \<Rightarrow> fusion_state" where
  "run_cycles rs s = foldl (\<lambda>s r. calculateStressIndex r s) s rs"

text \<open>A number that is at least \<open>c\<close>, or \<open>+inf\<close>.\<close>

fun at_least :: "rat \<Rightarrow> fp \<Rightarrow> bool" where
  "at_least c (Fin x) \<longleftrightarrow> c \<le> x"
| "at_least c PInf \<longleftrightarrow> True"
| "at_least c NInf \<longleftrightarrow> False"
| "at_least c NaN \<longleftrightarrow> False"

text \<open>A value of the scale: a number between 0 and 100, neither an infinity nor NaN.\<close>

fun in_range :: "fp \<Rightarrow> bool" where
  "in_range (Fin x) \<longleftrightarrow> 0 \<le> x \<and> x \<le> 100"
| "in_range PInf \<longleftrightarrow> False"
| "in_range NInf \<longleftrightarrow> False"
| "in_range NaN \<longleftrightarrow> False"

section \<open>Predicates used by the statements\<close>

text \<open>
  The wall-clock reading of the specification: the snapshot's second of the day plus
  the whole seconds elapsed on the tick counter, taken modulo \<open>2^32\<close>.
\<close>

definition clock_seconds :: "SyncedTime \<Rightarrow> 32 word \<Rightarrow> nat" where
  "clock_seconds st currentMillis =
     unat (st_hour st) * 3600 + unat (st_minute st) * 60 + unat (st_second st) +
     ((unat currentMillis + 2 ^ 32 - unat (millisAtSync st)) mod 2 ^ 32) div 1000"

text \<open>The documented validation of a time-sync payload, on the decoded numbers.\<close>

definition sync_payload_ok :: "8 word list \<Rightarrow> bool" where
  "sync_payload_ok v \<longleftrightarrow>
     8 \<le> length v \<and>
     2024 \<le> unat (v ! 1) + 256 * unat (v ! 2) \<and> unat (v ! 1) + 256 * unat (v ! 2) \<le> 2100 \<and>
     1 \<le> unat (v ! 3) \<and> unat (v ! 3) \<le> 12 \<and>
     1 \<le> unat (v ! 4) \<and> unat (v ! 4) \<le> 31 \<and>
     unat (v ! 5) < 24 \<and> unat (v ! 6) < 60 \<and> unat (v ! 7) < 60"

text \<open>The ten bytes of one hour of the today record, in wire order.\<close>

definition today_bytes :: "HourlySummary \<Rightarrow> 8 word list" where
  "today_bytes r =
     [hour r, avgStress r, peakStress r, highStressMins r, avgHR r,
      ucast (avgHRV r), ucast (drop_bit 8 (avgHRV r)),
      ucast (avgGSR r), ucast (drop_bit 8 (avgGSR r)), today_flags r]"

text \<open>A day of 24 valid hours, used to exercise the codec.\<close>

definition sample_day :: "HourlySummary list" where
  "sample_day = map (\<lambda>i. \<lparr>hour = of_nat i, avgStress = 40, peakStress = 75,
     highStressMins = 5, avgHR = 70, avgHRV = 300, avgGSR = 2000, sampleCount = 3600,
     avgActivityLevel = 2\<rparr>) [0..<24]"

text \<open>
  A persisted day with six valid hours of 50 high-stress minutes each, and the sync
  command for 2024-06-15 23:59:30.
\<close>

definition busy_day :: "HourlySummary list" where
  "busy_day = map (\<lambda>i. if i < 6
       then \<lparr>hour = of_nat i, avgStress = 80, peakStress = 95, highStressMins = 50,
             avgHR = 90, avgHRV = 20, avgGSR = 2500, sampleCount = 3600, avgActivityLevel = 0\<rparr>
       else zeroSummary\<lparr>hour := of_nat i\<rparr>) [0..<24]"

definition busy_prefs :: Preferences where
  "busy_prefs = \<lparr>pref_currentDay = Some 0,
     pref_day = (\<lambda>d. if d = 0 then Some busy_day else None)\<rparr>"

definition sync_before_midnight :: "8 word list" where
  "sync_before_midnight = [0x01, 0xE8, 0x07, 6, 15, 23, 59, 30]"

text \<open>The device states that the start-up state, commands and hour checks produce.\<close>

inductive device_reachable :: "device \<Rightarrow> bool" where
  dev_start: "device_reachable device_init"
| dev_write: "device_reachable s \<Longrightarrow> device_reachable (onWrite v t0 t1 s)"
| dev_check: "device_reachable s \<Longrightarrow> device_reachable (checkHourChange t s)"

text \<open>
  Invariant of the RR ring: the slots in use are those below \<open>head\<close> until the
  ring is full and all of them afterwards, and each holds a value within
  \<open>[300, 2000]\<close>.
\<close>

definition rr_in_range :: "int \<Rightarrow> bool" where
  "rr_in_range x \<longleftrightarrow> 300 \<le> x \<and> x \<le> 2000"

definition rr_inv :: "hr_state \<Rightarrow> bool" where
  "rr_inv s \<longleftrightarrow>
     length (rrBuffer s) = BUFFER_SIZE \<and> head s < BUFFER_SIZE \<and> count s \<le> BUFFER_SIZE \<and>
     (count s < BUFFER_SIZE \<longrightarrow> head s = count s) \<and>
     (\<forall>j < BUFFER_SIZE. count s = BUFFER_SIZE \<or> j < head s \<longrightarrow> rr_in_range (rrBuffer s ! j))"



text \<open>
  Three beats at ticks 1000, 2000 and 3100, the signal dropping in between; the
  states are those of the detector after each sample.
\<close>

definition beats_1 :: hr_state where
  "beats_1 = detectPeakAndCalculateBPM 1000 10 100 1000 hr_init"

definition beats_2 :: hr_state where
  "beats_2 = detectPeakAndCalculateBPM 1000 10 100 2000
               (detectPeakAndCalculateBPM 0 10 100 1010 beats_1)"

definition beats_2_low :: hr_state where
  "beats_2_low = detectPeakAndCalculateBPM 0 10 100 2010 beats_2"

definition beats_3 :: hr_state where
  "beats_3 = detectPeakAndCalculateBPM 1000 10 100 3100 beats_2_low"

text \<open>
  Invariant of the peak ring: the newest stored time is \<open>lastPeakTime\<close>, and
  stored consecutive peaks are more than 300 ticks apart.
\<close>

definition peak_inv :: "hr_state \<Rightarrow> bool" where
  "peak_inv s \<longleftrightarrow>
     length (peakTimes s) = PEAK_BUFFER_SIZE \<and> peakIndex s < PEAK_BUFFER_SIZE \<and>
     peakCount s \<le> PEAK_BUFFER_SIZE \<and>
     (peakCount s < PEAK_BUFFER_SIZE \<longrightarrow> peakIndex s = peakCount s) \<and>
     (0 < peakCount s \<longrightarrow>
        lastPeakTime s = peakTimes s ! ((peakIndex s + PEAK_BUFFER_SIZE - 1) mod PEAK_BUFFER_SIZE)) \<and>
     (\<forall>i. 1 \<le> i \<and> i < peakCount s \<longrightarrow> 300 < bpm_interval s i)"

text \<open>
  The readings the bounds are stated for: where the HRV score is computed, the
  long-term baseline is a positive \<open>float\<close> (at least \<open>2^-149\<close>, the
  smallest one), and the baseline and the two GSR values are below \<open>2^100\<close> in
  magnitude.  On the device the baseline starts at 50 and is a running mean of
  RMSSD values, and the GSR values are means of 12-bit samples.
\<close>

definition sensor_readings :: "readings \<Rightarrow> bool" where
  "sensor_readings r \<longleftrightarrow>
     (hrv_available r \<longrightarrow> pow2 (- 149) \<le> rd_longTermHRV r \<and> rd_longTermHRV r \<le> pow2 100) \<and>
     \<bar>currentGSR r\<bar> \<le> pow2 100 \<and> \<bar>baselineGSR r\<bar> \<le> pow2 100"

text \<open>
  The invariant of the fusion state: both smoothed values are on the scale, and the
  adaptive swing never falls below its initial value.
\<close>

definition fusion_inv :: "fusion_state \<Rightarrow> bool" where
  "fusion_inv s \<longleftrightarrow>
     in_range (smoothedStressData s) \<and> in_range (smoothedStressDisplay s) \<and>
     stressIndex s = smoothedStressData s \<and> stressIndexDisplay s = smoothedStressDisplay s \<and>
     at_least 100 (gsrMaxSwing s)"

definition extreme_readings :: readings where
  "extreme_readings = \<lparr>hrSensorActive = True, rd_count = 30, rd_currentHRV = 0,
     rd_longTermHRV = 50, currentActivity = STILL, currentGSR = 100000, baselineGSR = 0,
     currentHR = 200, motionVariance = 0\<rparr>"

section \<open>Facts about bytes and words\<close>

lemma unat_lt_256: "unat (b :: 8 word) < 256"
  using unsigned_less [of b, where ?'a = nat] by simp

lemma unat_ucast_8_32: "unat (ucast (b :: 8 word) :: 32 word) = unat b"
proof -
  have "unat b < 2 ^ 32" using unat_lt_256 [of b] by simp
  then show ?thesis by (simp add: unsigned_ucast_eq take_bit_nat_eq_self)
qed

lemma carry_add:
  fixes b :: "8 word" and w :: "32 word"
  assumes "unat w < 4294967040"
  shows "unat (ucast b + w) = unat b + unat w"
proof -
  have "unat (ucast b :: 32 word) + unat w < 2 ^ 32"
    using assms unat_lt_256 [of b] by (simp add: unat_ucast_8_32)
  then show ?thesis
    by (simp add: unat_add_lem [THEN iffD1] unat_ucast_8_32)
qed

lemma xFF_mask16: "(0xFF :: 16 word) = mask 8"
  by (simp add: mask_eq_exp_minus_1)

lemma x03_mask8: "(0x03 :: 8 word) = mask 2"
  by (simp add: mask_eq_exp_minus_1)

lemma u16_le_split: "u16_le (ucast (w AND 0xFF)) (ucast (drop_bit 8 w AND 0xFF)) = (w :: 16 word)"
  unfolding u16_le_def xFF_mask16
  by (rule bit_word_eqI) (auto simp: bit_simps)

lemma u16_le_add: "u16_le lo hi = ucast lo + push_bit 8 (ucast hi)"
  unfolding u16_le_def
  by (rule disjunctive_add_eq_or [symmetric], rule bit_word_eqI)
     (auto simp: bit_simps dest: bit_imp_le_length)

lemma u16_le_unat: "unat (u16_le lo hi) = unat lo + 256 * unat hi"
proof -
  have lo: "unat (ucast lo :: 16 word) = unat lo"
    using unat_lt_256 [of lo] by (simp add: unsigned_ucast_eq take_bit_nat_eq_self)
  have hi: "unat (ucast hi :: 16 word) = unat hi"
    using unat_lt_256 [of hi] by (simp add: unsigned_ucast_eq take_bit_nat_eq_self)
  have "unat (ucast hi :: 16 word) * unat (256 :: 16 word) < 2 ^ LENGTH(16)"
    using unat_lt_256 [of hi] by (simp add: hi)
  then have "unat ((ucast hi :: 16 word) * 256) = unat (ucast hi :: 16 word) * unat (256 :: 16 word)"
    by (rule unat_mult_lem [THEN iffD1])
  then have sh: "unat (push_bit 8 (ucast hi :: 16 word)) = 256 * unat hi"
    by (simp add: push_bit_eq_mult hi)
  have "unat (ucast lo :: 16 word) + unat (push_bit 8 (ucast hi :: 16 word)) < 2 ^ LENGTH(16)"
    using unat_lt_256 [of lo] unat_lt_256 [of hi] by (simp add: lo sh)
  then have "unat (ucast lo + push_bit 8 (ucast hi) :: 16 word) = unat lo + 256 * unat hi"
    by (simp add: unat_add_lem [THEN iffD1] lo sh)
  then show ?thesis by (simp add: u16_le_add)
qed

lemma le3_and:
  fixes a :: "8 word"
  assumes "a \<le> 3"
  shows "a AND 0x03 = a"
proof -
  have "unat a < 2 ^ 2" using assms by (simp add: word_le_nat_alt)
  then have "take_bit 2 a = a"
    by (metis take_bit_nat_eq_self unsigned_take_bit_eq word_unat_eq_iff)
  then show ?thesis by (simp add: x03_mask8 flip: take_bit_eq_mask)
qed

section \<open>The clock\<close>

lemma elapsedMillis_eq_diff: "elapsedMillis st t = t - millisAtSync st"
  by (simp add: elapsedMillis_def)

lemma unat_elapsedMillis:
  "unat (elapsedMillis st t) = (unat t + 2 ^ 32 - unat (millisAtSync st)) mod 2 ^ 32"
proof (cases "unat (millisAtSync st) \<le> unat t")
  case True
  define d where "d = unat t - unat (millisAtSync st)"
  have d: "d < 4294967296"
    using unsigned_less [of t, where ?'a = nat] by (simp add: d_def)
  have "unat t + 4294967296 - unat (millisAtSync st) = d + 4294967296"
    using True by (simp add: d_def)
  then have "(unat t + 4294967296 - unat (millisAtSync st)) mod 4294967296 = d"
    using d by simp
  moreover have "unat (elapsedMillis st t) = d"
    using True by (simp add: elapsedMillis_eq_diff unat_sub_if_size word_size d_def)
  ultimately show ?thesis by simp
next
  case False
  have "unat t + 2 ^ 32 - unat (millisAtSync st) < 2 ^ 32"
    using False by simp
  then show ?thesis
    using False by (simp add: elapsedMillis_eq_diff unat_sub_if_size word_size)
qed

lemma getCurrentTime_carry:
  fixes st :: SyncedTime and t :: "32 word"
  assumes "isValid st"
  defines "T \<equiv> clock_seconds st t"
  shows "getCurrentTime st t =
           (of_nat ((T div 3600) mod 24), of_nat ((T div 60) mod 60), of_nat (T mod 60))"
proof -
  define e where "e = unat (elapsedMillis st t) div 1000"
  define es :: "32 word" where "es = elapsedMillis st t div 1000"
  define ts :: "32 word" where "ts = ucast (st_second st) + es"
  define tm :: "32 word" where "tm = ucast (st_minute st) + ts div 60"
  define th :: "32 word" where "th = ucast (st_hour st) + tm div 60"
  have "unat (elapsedMillis st t) < 4294967296"
    using unsigned_less [of "elapsedMillis st t", where ?'a = nat] by simp
  then have e_bound: "e < 4294968"
    unfolding e_def by (simp add: less_mult_imp_div_less)
  have es: "unat es = e"
    by (simp add: es_def e_def unat_div)
  have ts: "unat ts = unat (st_second st) + e"
    unfolding ts_def using e_bound es carry_add [of es "st_second st"] by linarith
  have ts_bound: "unat ts < 4294968 + 256"
    using ts e_bound unat_lt_256 [of "st_second st"] by linarith
  have ts60: "unat (ts div 60) = unat ts div 60"
    by (simp add: unat_div)
  have tm: "unat tm = unat (st_minute st) + unat ts div 60"
    unfolding tm_def using ts_bound ts60 carry_add [of "ts div 60" "st_minute st"] by linarith
  have tm_bound: "unat tm < 4294968 + 512"
    using tm ts_bound unat_lt_256 [of "st_minute st"] by linarith
  have tm60: "unat (tm div 60) = unat tm div 60"
    by (simp add: unat_div)
  have th: "unat th = unat (st_hour st) + unat tm div 60"
    unfolding th_def using tm_bound tm60 carry_add [of "tm div 60" "st_hour st"] by linarith
  have T_split: "T = unat ts + (unat (st_hour st) * 60 + unat (st_minute st)) * 60"
    by (simp add: T_def clock_seconds_def ts e_def unat_elapsedMillis)
  have T_sec: "T mod 60 = unat ts mod 60"
    unfolding T_split by (rule mod_mult_self1)
  have T_min: "T div 60 = unat tm + unat (st_hour st) * 60"
    unfolding T_split tm by (simp add: div_mult_self1)
  have T_hr: "T div 3600 = unat th"
  proof -
    have "T div 3600 = (T div 60) div 60" by (simp add: div_mult2_eq)
    also have "\<dots> = unat th" unfolding T_min th by (simp add: div_mult_self1)
    finally show ?thesis .
  qed
  have T_min': "(T div 60) mod 60 = unat tm mod 60"
    unfolding T_min by (rule mod_mult_self1)
  have cast24: "(ucast (th mod 24) :: 8 word) = of_nat (unat th mod 24)"
    using of_nat_unat [of "th mod 24", where ?'a = "8 word"] by (simp add: unat_mod)
  have cast60m: "(ucast (tm mod 60) :: 8 word) = of_nat (unat tm mod 60)"
    using of_nat_unat [of "tm mod 60", where ?'a = "8 word"] by (simp add: unat_mod)
  have cast60s: "(ucast (ts mod 60) :: 8 word) = of_nat (unat ts mod 60)"
    using of_nat_unat [of "ts mod 60", where ?'a = "8 word"] by (simp add: unat_mod)
  have "getCurrentTime st t = (ucast (th mod 24), ucast (tm mod 60), ucast (ts mod 60))"
    using assms(1) by (simp add: getCurrentTime_def Let_def th_def tm_def ts_def es_def)
  also have "\<dots> = (of_nat ((T div 3600) mod 24), of_nat ((T div 60) mod 60), of_nat (T mod 60))"
    unfolding cast24 cast60m cast60s T_hr T_min' T_sec ..
  finally show ?thesis .
qed

text \<open>
  C7.  Before a sync the reported hour, minute and second are zero.  After a sync
  the reported time is the snapshot plus the whole seconds elapsed since the sync
  tick; the elapsed ticks are the difference modulo \<open>2^32\<close>, also when the counter
  is numerically below the sync tick; seconds carry into minutes, minutes into
  hours, the hour is taken modulo 24, and day, month and year do not enter.
\<close>

theorem getCurrentTime_correct:
  "(\<not> isValid st \<longrightarrow> getCurrentTime st t = (0, 0, 0)) \<and>
   (isValid st \<longrightarrow>
      getCurrentTime st t =
        (of_nat ((clock_seconds st t div 3600) mod 24),
         of_nat ((clock_seconds st t div 60) mod 60),
         of_nat (clock_seconds st t mod 60))) \<and>
   (t < millisAtSync st \<longrightarrow>
      unat (elapsedMillis st t) = unat t + 2 ^ 32 - unat (millisAtSync st))"
proof (intro conjI impI)
  assume "\<not> isValid st"
  then show "getCurrentTime st t = (0, 0, 0)" by (simp add: getCurrentTime_def)
next
  assume "isValid st"
  then show "getCurrentTime st t =
        (of_nat ((clock_seconds st t div 3600) mod 24),
         of_nat ((clock_seconds st t div 60) mod 60),
         of_nat (clock_seconds st t mod 60))"
    by (rule getCurrentTime_carry)
next
  assume "t < millisAtSync st"
  then show "unat (elapsedMillis st t) = unat t + 2 ^ 32 - unat (millisAtSync st)"
    by (simp add: elapsedMillis_eq_diff unat_sub_if_size word_size word_less_nat_alt)
qed

text \<open>
  A snapshot of 23:59:30 taken at tick \<open>0xFFFFFF00\<close> and read at tick 40000, after
  the counter wrapped: 40256 ms have elapsed and the clock shows 00:00:10.  The
  never-synced clock shows zero.
\<close>

theorem getCurrentTime_correct_witness:
  "getCurrentTime \<lparr>st_hour = 23, st_minute = 59, st_second = 30, st_day = 1, st_month = 1,
       st_year = 2025, millisAtSync = 0xFFFFFF00, isValid = True\<rparr> 40000 = (0, 0, 10) \<and>
   unat (elapsedMillis \<lparr>st_hour = 23, st_minute = 59, st_second = 30, st_day = 1, st_month = 1,
       st_year = 2025, millisAtSync = 0xFFFFFF00, isValid = True\<rparr> 40000) = 40256 \<and>
   getCurrentTime \<lparr>st_hour = 0, st_minute = 0, st_second = 0, st_day = 1, st_month = 1,
       st_year = 2025, millisAtSync = 0, isValid = False\<rparr> 123456 = (0, 0, 0)"
  using getCurrentTime_correct [of "\<lparr>st_hour = 23, st_minute = 59, st_second = 30, st_day = 1,
       st_month = 1, st_year = 2025, millisAtSync = 0xFFFFFF00, isValid = True\<rparr>" 40000]
     getCurrentTime_correct [of "\<lparr>st_hour = 0, st_minute = 0, st_second = 0, st_day = 1,
       st_month = 1, st_year = 2025, millisAtSync = 0, isValid = False\<rparr>" 123456]
  by (simp add: clock_seconds_def)

section \<open>The time-sync command\<close>

lemma sync_year_unat:
  "unat (push_bit 8 (ucast hi) OR ucast lo :: 16 word) = unat (lo :: 8 word) + 256 * unat (hi :: 8 word)"
  using u16_le_unat [of lo hi] by (simp add: u16_le_def or.commute)

lemma sync_fields_valid_iff:
  "sync_fields_valid (push_bit 8 (ucast hi) OR ucast lo) mo d h mi sec \<longleftrightarrow>
     2024 \<le> unat lo + 256 * unat hi \<and> unat lo + 256 * unat hi \<le> 2100 \<and>
     1 \<le> unat mo \<and> unat mo \<le> 12 \<and> 1 \<le> unat d \<and> unat d \<le> 31 \<and>
     unat h < 24 \<and> unat mi < 60 \<and> unat sec < 60"
  for lo hi mo d h mi sec :: "8 word"
  unfolding sync_fields_valid_def word_le_nat_alt word_less_nat_alt sync_year_unat
  by simp

lemma onWrite_sync_cases:
  assumes "v \<noteq> []" and "v ! 0 = 0x01"
  shows "onWrite v t0 t1 s =
    (if sync_payload_ok v then
       s\<lparr>syncedTime := \<lparr>st_hour = v ! 5, st_minute = v ! 6, st_second = v ! 7, st_day = v ! 4,
                          st_month = v ! 3, st_year = push_bit 8 (ucast (v ! 2)) OR ucast (v ! 1),
                          millisAtSync = t0, isValid = True\<rparr>,
         lastSyncedDay := v ! 4,
         currentHour := uint (fst (getCurrentTime \<lparr>st_hour = v ! 5, st_minute = v ! 6,
                          st_second = v ! 7, st_day = v ! 4, st_month = v ! 3,
                          st_year = push_bit 8 (ucast (v ! 2)) OR ucast (v ! 1),
                          millisAtSync = t0, isValid = True\<rparr> t1))\<rparr>
     else s)"
proof (cases "8 \<le> length v")
  case True
  then show ?thesis
    using assms
    by (simp add: onWrite_def Let_def sync_payload_ok_def sync_fields_valid_iff)
next
  case False
  then show ?thesis
    using assms by (simp add: onWrite_def Let_def sync_payload_ok_def)
qed

text \<open>
  C3.  For a command whose first byte is \<open>0x01\<close>: when the payload is shorter than
  8 bytes or a decoded field is outside its range, the whole state is unchanged
  (every field of \<open>syncedTime\<close> with \<open>isValid\<close>, \<open>lastSyncedDay\<close> and
  \<open>currentHour\<close>); when all fields are in range, \<open>syncedTime\<close> holds the payload's
  fields, the tick of the sync and \<open>isValid = True\<close>.
\<close>

theorem onWrite_time_sync:
  assumes "v \<noteq> []" and "v ! 0 = 0x01"
  shows "(\<not> sync_payload_ok v \<longrightarrow> onWrite v t0 t1 s = s) \<and>
         (sync_payload_ok v \<longrightarrow>
            syncedTime (onWrite v t0 t1 s) =
              \<lparr>st_hour = v ! 5, st_minute = v ! 6, st_second = v ! 7, st_day = v ! 4,
               st_month = v ! 3, st_year = of_nat (unat (v ! 1) + 256 * unat (v ! 2)),
               millisAtSync = t0, isValid = True\<rparr>)"
proof -
  have "(of_nat (unat (v ! 1) + 256 * unat (v ! 2)) :: 16 word) =
          push_bit 8 (ucast (v ! 2)) OR ucast (v ! 1)"
    using sync_year_unat [of "v ! 2" "v ! 1", symmetric] by (simp only: of_nat_unat) simp
  then show ?thesis
    by (simp add: onWrite_sync_cases [OF assms])
qed

text \<open>
  The payload \<open>01 E8 07 06 0F 0E 1E 00\<close> (2024-06-15 14:30:00) is applied; the same
  payload with month 13 and a payload of seven bytes leave the state as it was.
\<close>

theorem onWrite_time_sync_witness:
  "syncedTime (onWrite [0x01, 0xE8, 0x07, 6, 15, 14, 30, 0] 5000 5000 device_init) =
     \<lparr>st_hour = 14, st_minute = 30, st_second = 0, st_day = 15, st_month = 6, st_year = 2024,
      millisAtSync = 5000, isValid = True\<rparr> \<and>
   onWrite [0x01, 0xE8, 0x07, 13, 15, 14, 30, 0] 5000 5000 device_init = device_init \<and>
   onWrite [0x01, 0xE8, 0x07, 6, 15, 14, 30] 5000 5000 device_init = device_init"
  using onWrite_time_sync [of "[0x01, 0xE8, 0x07, 6, 15, 14, 30, 0]" 5000 5000 device_init]
    onWrite_time_sync [of "[0x01, 0xE8, 0x07, 13, 15, 14, 30, 0]" 5000 5000 device_init]
    onWrite_time_sync [of "[0x01, 0xE8, 0x07, 6, 15, 14, 30]" 5000 5000 device_init]
  by (simp add: sync_payload_ok_def)

section \<open>The today record\<close>

lemma ucast_low_byte: "(ucast (w AND 0xFF) :: 8 word) = ucast (w :: 16 word)"
  unfolding xFF_mask16
  by (rule bit_word_eqI) (auto simp: bit_simps)

lemma ucast_high_byte: "(ucast (drop_bit 8 w AND 0xFF) :: 8 word) = ucast (drop_bit 8 (w :: 16 word))"
  unfolding xFF_mask16
  by (rule bit_word_eqI) (auto simp: bit_simps)

lemma u16_le_bytes: "u16_le (ucast w) (ucast (drop_bit 8 w)) = (w :: 16 word)"
  using u16_le_split [of w] by (simp only: ucast_low_byte ucast_high_byte)

lemma today_flags_valid: "bit (today_flags r) 0 \<longleftrightarrow> sampleCount r > 0"
  by (simp add: today_flags_def bit_simps)

lemma today_flags_activity: "drop_bit 1 (today_flags r) AND 0x03 = avgActivityLevel r AND 0x03"
  unfolding today_flags_def x03_mask8
  by (rule bit_word_eqI) (auto simp: bit_simps simp del: push_bit_Suc drop_bit_Suc One_nat_def)

lemma today_flags_activity_Suc:
  "drop_bit (Suc 0) (today_flags r) AND 0x03 = avgActivityLevel r AND 0x03"
  using today_flags_activity [of r] by simp

lemma length_packTodayHour [simp]: "length (packTodayHour td i buffer) = length buffer"
  by (simp add: packTodayHour_def Let_def)

lemma packTodayHour_other:
  assumes "j < i * 10 \<or> i * 10 + 10 \<le> j"
  shows "packTodayHour td i buffer ! j = buffer ! j"
  using assms by (auto simp: packTodayHour_def Let_def)

lemma packTodayHour_entry:
  assumes "i * 10 + 10 \<le> length buffer"
  shows "take 10 (drop (i * 10) (packTodayHour td i buffer)) = today_bytes (td ! i)"
proof (rule nth_equalityI)
  show "length (take 10 (drop (i * 10) (packTodayHour td i buffer))) = length (today_bytes (td ! i))"
    using assms by (simp add: today_bytes_def)
next
  fix k
  assume "k < length (take 10 (drop (i * 10) (packTodayHour td i buffer)))"
  then have k: "k < 10" by simp
  then consider "k = 0" | "k = 1" | "k = 2" | "k = 3" | "k = 4" | "k = 5" | "k = 6"
    | "k = 7" | "k = 8" | "k = 9" by atomize_elim arith
  then show "take 10 (drop (i * 10) (packTodayHour td i buffer)) ! k = today_bytes (td ! i) ! k"
    using assms
    by cases (simp_all add: packTodayHour_def Let_def today_bytes_def
        ucast_low_byte ucast_high_byte)
qed

lemma length_packToday_loop [simp]:
  "length (foldl (\<lambda>b i. packTodayHour td i b) buffer [0..<n]) = length buffer"
  by (induction n) simp_all

lemma packToday_loop_other:
  assumes "n * 10 \<le> j"
  shows "foldl (\<lambda>b i. packTodayHour td i b) buffer [0..<n] ! j = buffer ! j"
  using assms by (induction n) (simp_all add: packTodayHour_other)

lemma packToday_loop_entry:
  assumes "i < n" and "n * 10 \<le> length buffer"
  shows "take 10 (drop (i * 10) (foldl (\<lambda>b i. packTodayHour td i b) buffer [0..<n])) =
           today_bytes (td ! i)"
  using assms
proof (induction n)
  case 0
  then show ?case by simp
next
  case (Suc n)
  let ?b = "foldl (\<lambda>b i. packTodayHour td i b) buffer [0..<n]"
  show ?case
  proof (cases "i = n")
    case True
    then show ?thesis
      using Suc.prems packTodayHour_entry [of n ?b td] by simp
  next
    case False
    then have i: "i < n" using Suc.prems by simp
    have len: "i * 10 + 10 \<le> length ?b" using i Suc.prems by simp
    have "take 10 (drop (i * 10) (packTodayHour td n ?b)) = take 10 (drop (i * 10) ?b)"
    proof (rule nth_equalityI)
      show "length (take 10 (drop (i * 10) (packTodayHour td n ?b))) = length (take 10 (drop (i * 10) ?b))"
        by simp
    next
      fix k
      assume "k < length (take 10 (drop (i * 10) (packTodayHour td n ?b)))"
      then have k: "k < 10" by simp
      have "i * 10 + k < n * 10" using i k by simp
      then have "packTodayHour td n ?b ! (i * 10 + k) = ?b ! (i * 10 + k)"
        by (simp add: packTodayHour_other)
      then show "take 10 (drop (i * 10) (packTodayHour td n ?b)) ! k = take 10 (drop (i * 10) ?b) ! k"
        using k len by simp
    qed
    then show ?thesis
      using Suc.IH [OF i] Suc.prems by simp
  qed
qed

lemma decode_today_bytes:
  assumes "take 10 (drop (10 * i) out) = today_bytes r"
  shows "decodeTodayEntry out i =
     \<lparr>te_hour = hour r, te_avgStress = avgStress r, te_peakStress = peakStress r,
      te_highStressMins = highStressMins r, te_avgHR = avgHR r, te_avgHRV = avgHRV r,
      te_avgGSR = avgGSR r, te_valid = (sampleCount r > 0),
      te_activity = avgActivityLevel r AND 0x03\<rparr>"
  by (simp add: decodeTodayEntry_def Let_def assms today_bytes_def u16_le_bytes
      today_flags_valid today_flags_activity_Suc)

text \<open>
  C8.  For 24 hourly summaries whose activity level is at most 3, packed into the
  240-byte buffer: the buffer keeps its 240 bytes; the ten bytes of hour \<open>i\<close> are
  hour, avgStress, peakStress, highStressMins, avgHR, the low and high byte of avgHRV,
  the low and high byte of avgGSR and the flags byte; and reading the entry back
  gives every field of the summary, the validity bit being set exactly when
  \<open>sampleCount > 0\<close> and bits 1 and 2 holding the activity level.
\<close>

theorem packTodayData_roundtrip:
  assumes "length td = 24" and "length buffer = 240"
    and "\<forall>r \<in> set td. avgActivityLevel r \<le> 3"
    and "i < 24"
  shows "length (packTodayData td buffer) = 240 \<and>
         take 10 (drop (10 * i) (packTodayData td buffer)) =
           [hour (td ! i), avgStress (td ! i), peakStress (td ! i), highStressMins (td ! i),
            avgHR (td ! i), ucast (avgHRV (td ! i)), ucast (drop_bit 8 (avgHRV (td ! i))),
            ucast (avgGSR (td ! i)), ucast (drop_bit 8 (avgGSR (td ! i))),
            today_flags (td ! i)] \<and>
         (bit (today_flags (td ! i)) 0 \<longleftrightarrow> sampleCount (td ! i) > 0) \<and>
         drop_bit 1 (today_flags (td ! i)) AND 0x03 = avgActivityLevel (td ! i) \<and>
         decodeTodayEntry (packTodayData td buffer) i =
           \<lparr>te_hour = hour (td ! i), te_avgStress = avgStress (td ! i),
            te_peakStress = peakStress (td ! i), te_highStressMins = highStressMins (td ! i),
            te_avgHR = avgHR (td ! i), te_avgHRV = avgHRV (td ! i),
            te_avgGSR = avgGSR (td ! i), te_valid = (sampleCount (td ! i) > 0),
            te_activity = avgActivityLevel (td ! i)\<rparr>"
proof -
  have act: "avgActivityLevel (td ! i) AND 0x03 = avgActivityLevel (td ! i)"
    using assms(1,3,4) by (simp add: le3_and)
  have entry: "take 10 (drop (10 * i) (packTodayData td buffer)) = today_bytes (td ! i)"
    using packToday_loop_entry [of i 24 buffer td] assms(2,4)
    by (simp add: packTodayData_def HOURS_PER_DAY_def mult.commute)
  show ?thesis
    using entry decode_today_bytes [OF entry] act assms(2)
    by (simp add: packTodayData_def today_bytes_def today_flags_valid today_flags_activity_Suc)
qed

text \<open>
  Hour 3 of a day whose hours all hold stress 40, peak 75, HR 70, HRV 300, GSR 2000
  and activity 2: the entry is \<open>03 28 4B 05 46 2C 01 D0 07 05\<close>.
\<close>

lemma sample_day_nth: "sample_day ! 3 = \<lparr>hour = 3, avgStress = 40, peakStress = 75,
     highStressMins = 5, avgHR = 70, avgHRV = 300, avgGSR = 2000, sampleCount = 3600,
     avgActivityLevel = 2\<rparr>"
  by (simp add: sample_day_def)

theorem packTodayData_roundtrip_witness:
  "take 10 (drop 30 (packTodayData sample_day (replicate 240 0))) =
     [3, 40, 75, 5, 70, 44, 1, 208, 7, 5] \<and>
   decodeTodayEntry (packTodayData sample_day (replicate 240 0)) 3 =
     \<lparr>te_hour = 3, te_avgStress = 40, te_peakStress = 75, te_highStressMins = 5,
      te_avgHR = 70, te_avgHRV = 300, te_avgGSR = 2000, te_valid = True, te_activity = 2\<rparr>"
proof -
  have len: "length sample_day = 24" by (simp add: sample_day_def)
  have act: "\<forall>r \<in> set sample_day. avgActivityLevel r \<le> 3"
    by (auto simp: sample_day_def)
  show ?thesis
    using packTodayData_roundtrip [OF len _ act, of "replicate 240 0" 3]
    by (simp add: sample_day_nth today_flags_def)
qed

section \<open>Hour change and day rollover\<close>

lemma onWrite_sync_before_midnight:
  "onWrite sync_before_midnight 0 0 device_init =
     device_init\<lparr>syncedTime := \<lparr>st_hour = 23, st_minute = 59, st_second = 30, st_day = 15,
                    st_month = 6, st_year = 2024, millisAtSync = 0, isValid = True\<rparr>,
       lastSyncedDay := 15, currentHour := 23\<rparr>"
  by (simp add: onWrite_def sync_before_midnight_def sync_fields_valid_def Let_def
      getCurrentTime_def elapsedMillis_def)

lemma getCurrentTime_after_midnight:
  "getCurrentTime \<lparr>st_hour = 23, st_minute = 59, st_second = 30, st_day = 15,
       st_month = 6, st_year = 2024, millisAtSync = 0, isValid = True\<rparr> 60000 = (0, 0, 30)"
  by (simp add: getCurrentTime_def elapsedMillis_def Let_def)

text \<open>
  Once the clock is synced, \<open>checkHourChange\<close> compares \<open>syncedTime.day\<close> with
  \<open>lastSyncedDay\<close>, and the 23-to-0 test is not reached.  \<open>onWrite\<close> is the
  only writer of \<open>syncedTime.day\<close> and sets \<open>lastSyncedDay\<close> to the same value,
  so the two agree in every state with a valid clock, and the day index stays.
\<close>

lemma saveHourlyData_clock [simp]:
  "syncedTime (saveHourlyData h s) = syncedTime s"
  "lastSyncedDay (saveHourlyData h s) = lastSyncedDay s"
  "currentDay (saveHourlyData h s) = currentDay s"
  by (simp_all add: saveHourlyData_def Let_def)

lemma checkHourChange_synced_keeps_day:
  assumes "isValid (syncedTime s)" and "st_day (syncedTime s) = lastSyncedDay s"
  shows "currentDay (checkHourChange t s) = currentDay s"
    and "syncedTime (checkHourChange t s) = syncedTime s"
    and "lastSyncedDay (checkHourChange t s) = lastSyncedDay s"
  using assms by (simp_all add: checkHourChange_def Let_def)

lemma onWrite_day_tracking:
  assumes "isValid (syncedTime s) \<longrightarrow> st_day (syncedTime s) = lastSyncedDay s"
  shows "isValid (syncedTime (onWrite v t0 t1 s)) \<longrightarrow>
           st_day (syncedTime (onWrite v t0 t1 s)) = lastSyncedDay (onWrite v t0 t1 s)"
  using assms by (simp add: onWrite_def Let_def)

lemma checkHourChange_unsynced_clock:
  assumes "\<not> isValid (syncedTime s)"
  shows "syncedTime (checkHourChange t s) = syncedTime s"
  using assms by (simp add: checkHourChange_def Let_def)

lemma device_reachable_day_tracking:
  "device_reachable s \<Longrightarrow> isValid (syncedTime s) \<longrightarrow> st_day (syncedTime s) = lastSyncedDay s"
proof (induction rule: device_reachable.induct)
  case dev_start
  then show ?case by (simp add: device_init_def)
next
  case (dev_write s v t0 t1)
  then show ?case by (simp add: onWrite_day_tracking)
next
  case (dev_check s t)
  show ?case
  proof (cases "isValid (syncedTime s)")
    case True
    then show ?thesis
      using dev_check.IH by (simp add: checkHourChange_synced_keeps_day)
  next
    case False
    then show ?thesis by (simp add: checkHourChange_unsynced_clock)
  qed
qed

lemma synced_never_rolls_over:
  assumes "device_reachable s" and "isValid (syncedTime s)"
  shows "currentDay (checkHourChange t s) = currentDay s"
  using device_reachable_day_tracking [OF assms(1)] assms(2)
  by (simp add: checkHourChange_synced_keeps_day)

text \<open>Without a sync the transition from hour 23 to hour 0 does rotate the storage.\<close>

lemma unsynced_midnight_rolls_over:
  assumes "\<not> isValid (syncedTime s)" and "currentHour s = 23"
    and "uint ((t div 3600000) mod 24) = 0"
  shows "currentDay (checkHourChange t s) = of_nat ((unat (currentDay s) + 1) mod 7)"
    and "pref_currentDay (preferences (checkHourChange t s)) =
           Some (of_nat ((unat (currentDay s) + 1) mod 7))"
    and "todayData (checkHourChange t s) = emptyDay"
  using assms
  by (simp_all add: checkHourChange_def Let_def DAYS_TO_STORE_def putUChar_currentDay_def)

text \<open>
  C2.  With a synced clock the passage from hour 23 to hour 0 does not rotate the
  storage.  After the sync command for 23:59:30 at tick 0, the hour check at tick
  60000 moves the current hour from 23 to 0, and the day index stays 0 and no day
  index is persisted, where a rollover would give index 1.
\<close>

theorem checkHourChange_synced_midnight:
  "currentHour (onWrite sync_before_midnight 0 0 device_init) = 23 \<and>
   currentHour (checkHourChange 60000 (onWrite sync_before_midnight 0 0 device_init)) = 0 \<and>
   currentDay (onWrite sync_before_midnight 0 0 device_init) = 0 \<and>
   currentDay (checkHourChange 60000 (onWrite sync_before_midnight 0 0 device_init)) = 0 \<and>
   pref_currentDay (preferences
     (checkHourChange 60000 (onWrite sync_before_midnight 0 0 device_init))) = None"
  by (simp add: onWrite_sync_before_midnight checkHourChange_def Let_def
      getCurrentTime_after_midnight saveHourlyData_def)
     (simp add: device_init_def resetAccum_def)

section \<open>The week record\<close>

lemma busy_day_length: "length busy_day = 24"
  by (simp add: busy_day_def)

lemma busy_day_minutes:
  "sum_list (map (\<lambda>r. unat (highStressMins r)) (filter (\<lambda>r. sampleCount r > 0) busy_day)) = 300"
  by code_simp

lemma aggregate_busy_day:
  "aggregateDay busy_prefs 0 =
     \<lparr>agg_stressSum = 480, agg_hrSum = 540, agg_hrvSum = 120, agg_peakStress = 95,
      agg_peakHour = 0, agg_highMins = 44, agg_validHours = 6\<rparr>"
  by code_simp

text \<open>
  C9.  The high-stress minutes of a day are accumulated in a \<open>uint8_t\<close>.  For a day
  with six valid hours of 50 high-stress minutes each the sum is 300 and the week
  record holds 44.
\<close>

theorem packWeekData_highMins_wraps:
  "sum_list (map (\<lambda>r. unat (highStressMins r)) (filter (\<lambda>r. sampleCount r > 0) busy_day)) = 300 \<and>
   take 10 (packWeekData busy_prefs (replicate 70 0)) = [0, 80, 95, 0, 44, 90, 20, 0, 0, 1]"
  by (simp add: busy_day_minutes)
     code_simp

section \<open>The outlier guard\<close>

lemma f32_quotient_one_fifth: "f32_round (f32_round 200 / f32_round 1000) = 13421773 / 67108864"
  by code_simp

lemma rr_outlier_exact_fifth: "rr_outlier 1200 1000"
  by code_simp

lemma rr_outlier_below_fifth: "\<not> rr_outlier 1199 1000"
  by code_simp

lemma addRRInterval_first:
  "addRRInterval 1000 hr_init =
     hr_init\<lparr>rrBuffer := (replicate BUFFER_SIZE 0)[0 := 1000], head := 1, count := 1\<rparr>"
  by (simp add: addRRInterval_def hr_init_def rr_stored_def Let_def BUFFER_SIZE_def
      HRV_WARMUP_COUNT_def)

text \<open>
  C5.  An interval of 1200 ms after a stored interval of 1000 ms deviates by exactly
  20 percent, not by more.  The single-precision quotient is
  \<open>13421773 / 2^26\<close>, which is above the double constant \<open>0.20\<close>; the test
  succeeds and the previous value 1000 is stored in place of 1200.
\<close>

theorem addRRInterval_exact_fifth_replaced:
  "\<not> (\<bar>1200 - 1000\<bar> / 1000 > (0.20 :: real)) \<and>
   rr_stored 1200 (addRRInterval 1000 hr_init) = 1000 \<and>
   rrBuffer (addRRInterval 1200 (addRRInterval 1000 hr_init)) ! 1 = 1000"
  by (simp add: addRRInterval_first)
     (simp add: addRRInterval_def rr_stored_def prevBeat_of_def rr_outlier_exact_fifth
        hr_init_def BUFFER_SIZE_def HRV_WARMUP_COUNT_def Let_def)

section \<open>The RR ring buffer\<close>


lemma rr_inv_slot:
  assumes "rr_inv s" and "j < BUFFER_SIZE" and "count s = BUFFER_SIZE \<or> j < head s"
  shows "rr_in_range (rrBuffer s ! j)"
  using assms unfolding rr_inv_def by blast



lemma addRRInterval_ring:
  "rrBuffer (addRRInterval x s) = (rrBuffer s)[head s := rr_stored x s]"
  "head (addRRInterval x s) = (head s + 1) mod BUFFER_SIZE"
  "count (addRRInterval x s) = (if count s < BUFFER_SIZE then count s + 1 else count s)"
  by (simp_all add: addRRInterval_def Let_def)

lemma addRRInterval_peak_fields:
  "peakTimes (addRRInterval x s) = peakTimes s"
  "peakIndex (addRRInterval x s) = peakIndex s"
  "peakCount (addRRInterval x s) = peakCount s"
  "currentBPM (addRRInterval x s) = currentBPM s"
  "lastPeakTime (addRRInterval x s) = lastPeakTime s"
  "lastBeatTime (addRRInterval x s) = lastBeatTime s"
  "peakDetected (addRRInterval x s) = peakDetected s"
  "lastValue (addRRInterval x s) = lastValue s"
  by (simp_all add: addRRInterval_def Let_def)






lemma calculateBPM_fields:
  "rrBuffer (calculateBPM s) = rrBuffer s"
  "head (calculateBPM s) = head s"
  "count (calculateBPM s) = count s"
  "currentHRV (calculateBPM s) = currentHRV s"
  "longTermHRV (calculateBPM s) = longTermHRV s"
  "peakTimes (calculateBPM s) = peakTimes s"
  "peakIndex (calculateBPM s) = peakIndex s"
  "peakCount (calculateBPM s) = peakCount s"
  "lastPeakTime (calculateBPM s) = lastPeakTime s"
  "lastBeatTime (calculateBPM s) = lastBeatTime s"
  "peakDetected (calculateBPM s) = peakDetected s"
  "lastValue (calculateBPM s) = lastValue s"
  by (simp_all add: calculateBPM_def Let_def)




lemma extract_rr_lastValue: "lastValue (extract_rr t s) = lastValue s"
  by (simp add: extract_rr_def Let_def addRRInterval_peak_fields)

lemma onBeat_lastValue: "lastValue (onBeat t s) = lastValue s"
  by (simp add: onBeat_def calculateBPM_fields store_peak_def extract_rr_lastValue)

lemma detect_on_beat:
  assumes "beat_detected irValue t (update_threshold irValue minValue maxValue s)"
  shows "detectPeakAndCalculateBPM irValue minValue maxValue t s =
           (onBeat t (update_threshold irValue minValue maxValue s))\<lparr>lastValue := irValue\<rparr>"
proof -
  have "lastValue s < irValue"
    using assms by (simp add: beat_detected_def update_threshold_def)
  then have "\<not> irValue < lastValue (onBeat t (update_threshold irValue minValue maxValue s))"
    by (simp add: onBeat_lastValue update_threshold_def)
  then show ?thesis
    using assms by (simp add: detectPeakAndCalculateBPM_def Let_def)
qed

lemma detect_no_beat:
  assumes "\<not> beat_detected irValue t (update_threshold irValue minValue maxValue s)"
  shows "detectPeakAndCalculateBPM irValue minValue maxValue t s =
           (update_threshold irValue minValue maxValue s)
             \<lparr>peakDetected := (if irValue < lastValue s then False else peakDetected s),
              lastValue := irValue\<rparr>"
  using assms by (simp add: detectPeakAndCalculateBPM_def Let_def update_threshold_def)



lemma rr_index_slot:
  assumes "rr_inv s" and "i < count s"
  shows "rr_index s i < BUFFER_SIZE \<and> (count s = BUFFER_SIZE \<or> rr_index s i < head s)"
proof (cases "count s = BUFFER_SIZE")
  case True
  then show ?thesis by (simp add: rr_index_def BUFFER_SIZE_def)
next
  case False
  then have "head s = count s" "count s < BUFFER_SIZE"
    using assms(1) by (simp_all add: rr_inv_def)
  then show ?thesis using assms(2) by (simp add: rr_index_def BUFFER_SIZE_def)
qed

lemma rr_window_in_range:
  assumes "rr_inv s"
  shows "\<forall>x \<in> set (rr_window s). rr_in_range x"
proof
  fix x
  assume "x \<in> set (rr_window s)"
  then obtain i where i: "i < count s" and x: "x = rrBuffer s ! rr_index s i"
    by (auto simp: rr_window_def)
  show "rr_in_range x"
    unfolding x using rr_index_slot [OF assms i] by (intro rr_inv_slot [OF assms]) simp_all
qed

section \<open>A run of three beats\<close>

lemma rr_outlier_1000_1100: "\<not> rr_outlier 1100 1000"
  by code_simp

lemma threshold_10_100: "c_trunc (of_int 10 + of_int (100 - 10) * 0.6) = 64"
  by (simp add: c_trunc_def)

lemma calculateBPM_few: "peakCount s < 3 \<Longrightarrow> calculateBPM s = s"
  by (simp add: calculateBPM_def)

lemma beats_1_eq:
  "beats_1 = hr_init\<lparr>runningAvg := 1000, irSampleCount := 1, peakThreshold := 64,
     peakDetected := True, lastPeakTime := 1000, lastBeatTime := 1000,
     peakTimes := (replicate 10 0)[0 := 1000], peakIndex := 1, peakCount := 1,
     lastValue := 1000\<rparr>"
proof -
  let ?s1 = "update_threshold 1000 10 100 hr_init"
  have s1: "?s1 = hr_init\<lparr>runningAvg := 1000, irSampleCount := 1, peakThreshold := 64\<rparr>"
    by (simp add: update_threshold_def c_trunc_def c_div_def hr_init_def)
  have beat: "beat_detected 1000 1000 ?s1"
    unfolding s1 by (simp add: beat_detected_def hr_init_def)
  have ex: "extract_rr 1000 (?s1\<lparr>peakDetected := True, lastPeakTime := 1000\<rparr>) =
      hr_init\<lparr>runningAvg := 1000, irSampleCount := 1, peakThreshold := 64,
        peakDetected := True, lastPeakTime := 1000, lastBeatTime := 1000\<rparr>"
    unfolding s1 by (simp add: extract_rr_def hr_init_def)
  have st: "store_peak 1000 (extract_rr 1000 (?s1\<lparr>peakDetected := True, lastPeakTime := 1000\<rparr>)) =
      hr_init\<lparr>runningAvg := 1000, irSampleCount := 1, peakThreshold := 64,
        peakDetected := True, lastPeakTime := 1000, lastBeatTime := 1000,
        peakTimes := (replicate 10 0)[0 := 1000], peakIndex := 1, peakCount := 1\<rparr>"
    unfolding ex by (simp add: store_peak_def hr_init_def PEAK_BUFFER_SIZE_def)
  have "onBeat 1000 ?s1 =
      hr_init\<lparr>runningAvg := 1000, irSampleCount := 1, peakThreshold := 64,
        peakDetected := True, lastPeakTime := 1000, lastBeatTime := 1000,
        peakTimes := (replicate 10 0)[0 := 1000], peakIndex := 1, peakCount := 1\<rparr>"
    unfolding onBeat_def st by (rule calculateBPM_few) simp
  then show ?thesis
    unfolding beats_1_def detect_on_beat [OF beat] by simp
qed

lemma beats_1_low_eq:
  "detectPeakAndCalculateBPM 0 10 100 1010 beats_1 =
     hr_init\<lparr>runningAvg := 500, irSampleCount := 2, peakThreshold := 64,
       peakDetected := False, lastPeakTime := 1000, lastBeatTime := 1000,
       peakTimes := (replicate 10 0)[0 := 1000], peakIndex := 1, peakCount := 1,
       lastValue := 0\<rparr>"
proof -
  have "\<not> beat_detected 0 1010 (update_threshold 0 10 100 beats_1)"
    by (simp add: beat_detected_def update_threshold_def beats_1_eq)
  then show ?thesis
    unfolding detect_no_beat [OF \<open>\<not> beat_detected 0 1010 (update_threshold 0 10 100 beats_1)\<close>]
    by (simp add: update_threshold_def beats_1_eq c_trunc_def c_div_def hr_init_def)
qed

lemma beats_2_eq:
  "beats_2 = hr_init\<lparr>rrBuffer := (replicate 30 0)[0 := 1000], head := 1, count := 1,
     runningAvg := 666, irSampleCount := 3, peakThreshold := 64,
     peakDetected := True, lastPeakTime := 2000, lastBeatTime := 2000,
     peakTimes := (replicate 10 0)[0 := 1000, 1 := 2000], peakIndex := 2, peakCount := 2,
     lastValue := 1000\<rparr>"
proof -
  let ?s0 = "detectPeakAndCalculateBPM 0 10 100 1010 beats_1"
  let ?s1 = "update_threshold 1000 10 100 ?s0"
  have s1: "?s1 = hr_init\<lparr>runningAvg := 666, irSampleCount := 3, peakThreshold := 64,
       peakDetected := False, lastPeakTime := 1000, lastBeatTime := 1000,
       peakTimes := (replicate 10 0)[0 := 1000], peakIndex := 1, peakCount := 1,
       lastValue := 0\<rparr>"
    by (simp add: beats_1_low_eq update_threshold_def c_trunc_def c_div_def hr_init_def)
  have beat: "beat_detected 1000 2000 ?s1"
    by (simp add: s1 beat_detected_def hr_init_def)
  have add: "addRRInterval 1000 (?s1\<lparr>peakDetected := True, lastPeakTime := 2000\<rparr>) =
      hr_init\<lparr>rrBuffer := (replicate 30 0)[0 := 1000], head := 1, count := 1,
        runningAvg := 666, irSampleCount := 3, peakThreshold := 64,
        peakDetected := True, lastPeakTime := 2000, lastBeatTime := 1000,
        peakTimes := (replicate 10 0)[0 := 1000], peakIndex := 1, peakCount := 1,
        lastValue := 0\<rparr>"
    by (simp add: s1 addRRInterval_def rr_stored_def hr_init_def BUFFER_SIZE_def
        HRV_WARMUP_COUNT_def Let_def)
  have ex: "extract_rr 2000 (?s1\<lparr>peakDetected := True, lastPeakTime := 2000\<rparr>) =
      (addRRInterval 1000 (?s1\<lparr>peakDetected := True, lastPeakTime := 2000\<rparr>))
        \<lparr>lastBeatTime := 2000\<rparr>"
    by (simp add: extract_rr_def Let_def) (simp add: s1 hr_init_def)
  have st: "store_peak 2000 (extract_rr 2000 (?s1\<lparr>peakDetected := True, lastPeakTime := 2000\<rparr>)) =
      hr_init\<lparr>rrBuffer := (replicate 30 0)[0 := 1000], head := 1, count := 1,
        runningAvg := 666, irSampleCount := 3, peakThreshold := 64,
        peakDetected := True, lastPeakTime := 2000, lastBeatTime := 2000,
        peakTimes := (replicate 10 0)[0 := 1000, 1 := 2000], peakIndex := 2, peakCount := 2,
        lastValue := 0\<rparr>"
    unfolding ex add by (simp add: store_peak_def hr_init_def PEAK_BUFFER_SIZE_def)
  have "onBeat 2000 ?s1 =
      hr_init\<lparr>rrBuffer := (replicate 30 0)[0 := 1000], head := 1, count := 1,
        runningAvg := 666, irSampleCount := 3, peakThreshold := 64,
        peakDetected := True, lastPeakTime := 2000, lastBeatTime := 2000,
        peakTimes := (replicate 10 0)[0 := 1000, 1 := 2000], peakIndex := 2, peakCount := 2,
        lastValue := 0\<rparr>"
    unfolding onBeat_def st by (rule calculateBPM_few) simp
  then show ?thesis
    unfolding beats_2_def detect_on_beat [OF beat] by simp
qed

lemma beats_2_low_eq:
  "beats_2_low = hr_init\<lparr>rrBuffer := (replicate 30 0)[0 := 1000], head := 1, count := 1,
     runningAvg := 499, irSampleCount := 4, peakThreshold := 64,
     peakDetected := False, lastPeakTime := 2000, lastBeatTime := 2000,
     peakTimes := (replicate 10 0)[0 := 1000, 1 := 2000], peakIndex := 2, peakCount := 2,
     lastValue := 0\<rparr>"
proof -
  have nb: "\<not> beat_detected 0 2010 (update_threshold 0 10 100 beats_2)"
    by (simp add: beat_detected_def update_threshold_def beats_2_eq)
  show ?thesis
    unfolding beats_2_low_def detect_no_beat [OF nb]
    by (simp add: update_threshold_def beats_2_eq c_trunc_def c_div_def hr_init_def)
qed

lemma beats_2_low_threshold:
  "update_threshold 1000 10 100 beats_2_low =
     hr_init\<lparr>rrBuffer := (replicate 30 0)[0 := 1000], head := 1, count := 1,
       runningAvg := 599, irSampleCount := 5, peakThreshold := 64,
       peakDetected := False, lastPeakTime := 2000, lastBeatTime := 2000,
       peakTimes := (replicate 10 0)[0 := 1000, 1 := 2000], peakIndex := 2, peakCount := 2,
       lastValue := 0\<rparr>"
  by (simp add: beats_2_low_eq update_threshold_def c_trunc_def c_div_def hr_init_def)

lemma beats_2_low_beat: "beat_detected 1000 3100 (update_threshold 1000 10 100 beats_2_low)"
  by (simp add: beats_2_low_threshold beat_detected_def hr_init_def)

lemma hr_reachable_beats_2_low: "hr_reachable beats_2_low"
  unfolding beats_2_low_def beats_2_def beats_1_def
  by (intro hr_sample hr_start)


lemma store_peak_beats_3:
  "store_peak 3100 (extract_rr 3100
     ((update_threshold 1000 10 100 beats_2_low)\<lparr>peakDetected := True, lastPeakTime := 3100\<rparr>)) =
     hr_init\<lparr>rrBuffer := (replicate 30 0)[0 := 1000, 1 := 1100], head := 2, count := 2,
       runningAvg := 599, irSampleCount := 5, peakThreshold := 64,
       peakDetected := True, lastPeakTime := 3100, lastBeatTime := 3100,
       peakTimes := (replicate 10 0)[0 := 1000, 1 := 2000, 2 := 3100], peakIndex := 3,
       peakCount := 3, lastValue := 0\<rparr>"
proof -
  let ?s1 = "update_threshold 1000 10 100 beats_2_low"
  have pb: "prevBeat_of (?s1\<lparr>peakDetected := True, lastPeakTime := 3100\<rparr>) = 1000"
    by (simp add: beats_2_low_threshold prevBeat_of_def hr_init_def BUFFER_SIZE_def)
  have stored: "rr_stored 1100 (?s1\<lparr>peakDetected := True, lastPeakTime := 3100\<rparr>) = 1100"
    unfolding rr_stored_def pb by (simp add: rr_outlier_1000_1100)
  have add: "addRRInterval 1100 (?s1\<lparr>peakDetected := True, lastPeakTime := 3100\<rparr>) =
      hr_init\<lparr>rrBuffer := (replicate 30 0)[0 := 1000, 1 := 1100], head := 2, count := 2,
        runningAvg := 599, irSampleCount := 5, peakThreshold := 64,
        peakDetected := True, lastPeakTime := 3100, lastBeatTime := 2000,
        peakTimes := (replicate 10 0)[0 := 1000, 1 := 2000], peakIndex := 2, peakCount := 2,
        lastValue := 0\<rparr>"
    unfolding addRRInterval_def stored
    by (simp add: beats_2_low_threshold hr_init_def BUFFER_SIZE_def HRV_WARMUP_COUNT_def Let_def)
  have ex: "extract_rr 3100 (?s1\<lparr>peakDetected := True, lastPeakTime := 3100\<rparr>) =
      (addRRInterval 1100 (?s1\<lparr>peakDetected := True, lastPeakTime := 3100\<rparr>))
        \<lparr>lastBeatTime := 3100\<rparr>"
    by (simp add: extract_rr_def Let_def) (simp add: beats_2_low_threshold hr_init_def)
  show ?thesis
    unfolding ex add by (simp add: store_peak_def hr_init_def PEAK_BUFFER_SIZE_def)
qed

lemma beats_3_on_beat:
  "beats_3 = (calculateBPM (store_peak 3100 (extract_rr 3100
     ((update_threshold 1000 10 100 beats_2_low)\<lparr>peakDetected := True, lastPeakTime := 3100\<rparr>))))
       \<lparr>lastValue := 1000\<rparr>"
  unfolding beats_3_def detect_on_beat [OF beats_2_low_beat] onBeat_def ..


lemma beats_3_peaks:
  "peakTimes beats_3 = (replicate 10 0)[0 := 1000, 1 := 2000, 2 := 3100]"
  "peakIndex beats_3 = 3" "peakCount beats_3 = 3"
  by (simp_all add: beats_3_on_beat calculateBPM_fields store_peak_beats_3 hr_init_def)



section \<open>Safety of the divisions in the HRV estimator\<close>

lemma extract_rr_checked:
  "extract_rr t s =
     (if 0 < lastBeatTime s \<and> rr_in_range (uint (t - lastBeatTime s))
      then addRRInterval (uint (t - lastBeatTime s)) s else s)\<lparr>lastBeatTime := t\<rparr>"
  by (simp add: extract_rr_def Let_def rr_in_range_def word_le_def)

lemma rr_window_length [simp]: "length (rr_window s) = count s"
  by (simp add: rr_window_def)

lemma rr_window_nth: "i < count s \<Longrightarrow> rr_window s ! i = rrBuffer s ! rr_index s i"
  by (simp add: rr_window_def)






section \<open>RMSSD\<close>

lemma sumSq_fold:
  "foldl (sumSq_step s) a [0..<n] =
     a + (\<Sum>i<n. (rrBuffer s ! rr_index s (i + 1) - rrBuffer s ! rr_index s i)\<^sup>2)"
  by (induction n) (simp_all add: sumSq_step_def Let_def power2_eq_square)

lemma sumSq_loop_window:
  "sumSq_loop s = (\<Sum>i<count s - 1. (rr_window s ! (i + 1) - rr_window s ! i)\<^sup>2)"
proof -
  have "(\<Sum>i<count s - 1. (rrBuffer s ! rr_index s (i + 1) - rrBuffer s ! rr_index s i)\<^sup>2) =
        (\<Sum>i<count s - 1. (rr_window s ! (i + 1) - rr_window s ! i)\<^sup>2)"
    by (rule sum.cong) (simp_all add: rr_window_nth)
  then show ?thesis by (simp add: sumSq_loop_def sumSq_fold)
qed




text \<open>The sum of squares fits a 32-bit \<open>long\<close> on every buffer the detector produces.\<close>

lemma sq_diff_bound:
  assumes "rr_in_range a" and "rr_in_range b"
  shows "(b - a)\<^sup>2 \<le> 2890000"
proof -
  have "\<bar>b - a\<bar> \<le> 1700" using assms unfolding rr_in_range_def by linarith
  then have "\<bar>b - a\<bar>\<^sup>2 \<le> 1700\<^sup>2" by (intro power_mono) simp_all
  then show ?thesis by simp
qed

lemma sumSq_no_overflow:
  assumes "rr_inv s"
  shows "sumSq_loop s < 2 ^ 31"
proof -
  have c: "count s \<le> 30" using assms by (simp add: rr_inv_def BUFFER_SIZE_def)
  have "(\<Sum>i<count s - 1. (rr_window s ! (i + 1) - rr_window s ! i)\<^sup>2) \<le>
        (\<Sum>i<count s - 1. 2890000)"
  proof (rule sum_mono)
    fix i
    assume "i \<in> {..<count s - 1}"
    then have i: "i < count s" "i + 1 < count s" by auto
    have "rr_in_range (rr_window s ! i)" "rr_in_range (rr_window s ! (i + 1))"
      using rr_window_in_range [OF assms] i by (simp_all add: nth_mem)
    then show "(rr_window s ! (i + 1) - rr_window s ! i)\<^sup>2 \<le> 2890000"
      by (rule sq_diff_bound)
  qed
  also have "\<dots> = int (count s - 1) * 2890000" by simp
  also have "\<dots> \<le> 29 * 2890000" using c by simp
  finally show ?thesis by (simp add: sumSq_loop_window)
qed












text \<open>
  The stored intervals are kept in the order of their arrival: a new interval is
  appended to the window, and the oldest one leaves once the ring is full.
\<close>

lemma rr_window_addRRInterval:
  assumes "rr_inv s"
  shows "rr_window (addRRInterval x s) =
           (if count s < BUFFER_SIZE then rr_window s else tl (rr_window s)) @ [rr_stored x s]"
proof -
  have len: "length (rrBuffer s) = 30" and h: "head s < 30" and c: "count s \<le> 30"
    and hc: "count s < 30 \<longrightarrow> head s = count s"
    using assms by (simp_all add: rr_inv_def BUFFER_SIZE_def)
  let ?s' = "addRRInterval x s"
  show ?thesis
  proof (cases "count s < 30")
    case True
    then have eq: "head s = count s" using hc by simp
    have cnt: "count ?s' = count s + 1" using True by (simp add: addRRInterval_ring BUFFER_SIZE_def)
    have idx': "rr_index ?s' i = i" if "i \<le> count s" for i
    proof -
      have "(head s + 1) mod 30 + i + 30 - (count s + 1) = (head s + 1) mod 30 + 30 + i - (count s + 1)"
        by simp
      show ?thesis
      proof (cases "count s = 29")
        case True
        then show ?thesis using that eq
          by (simp add: rr_index_def addRRInterval_ring BUFFER_SIZE_def)
      next
        case False
        then have "(head s + 1) mod 30 = count s + 1" using True eq by simp
        then show ?thesis using that True
          by (simp add: rr_index_def addRRInterval_ring BUFFER_SIZE_def)
      qed
    qed
    have idx: "rr_index s i = i" if "i < count s" for i
      using that eq True by (simp add: rr_index_def BUFFER_SIZE_def)
    show ?thesis
    proof (rule nth_equalityI)
      show "length (rr_window ?s') =
            length ((if count s < BUFFER_SIZE then rr_window s else tl (rr_window s)) @ [rr_stored x s])"
        using True cnt by (simp add: BUFFER_SIZE_def)
    next
      fix i
      assume "i < length (rr_window ?s')"
      then have i: "i \<le> count s" using cnt by simp
      then have i': "i < count ?s'" using cnt by simp
      show "rr_window ?s' ! i =
            ((if count s < BUFFER_SIZE then rr_window s else tl (rr_window s)) @ [rr_stored x s]) ! i"
      proof (cases "i = count s")
        case True
        then show ?thesis
          using \<open>count s < 30\<close> eq len i'
          by (simp add: rr_window_nth idx' addRRInterval_ring BUFFER_SIZE_def nth_append)
      next
        case False
        then have lt: "i < count s" using i by simp
        then show ?thesis
          using \<open>count s < 30\<close> eq len i'
          by (simp add: rr_window_nth idx' idx addRRInterval_ring BUFFER_SIZE_def nth_append)
      qed
    qed
  next
    case False
    then have full: "count s = 30" using c by simp
    have cnt: "count ?s' = 30" using full by (simp add: addRRInterval_ring BUFFER_SIZE_def)
    have idx: "rr_index s i = (head s + i) mod 30" for i
      using full by (simp add: rr_index_def BUFFER_SIZE_def)
    have idx': "rr_index ?s' i = (head s + (i + 1)) mod 30" for i
    proof -
      have "rr_index ?s' i = ((head s + 1) mod 30 + i) mod 30"
        using cnt by (simp add: rr_index_def addRRInterval_ring BUFFER_SIZE_def)
      also have "\<dots> = (head s + 1 + i) mod 30" by (simp add: mod_add_left_eq)
      finally show ?thesis by (simp add: add.assoc add.commute)
    qed
    show ?thesis
    proof (rule nth_equalityI)
      show "length (rr_window ?s') =
            length ((if count s < BUFFER_SIZE then rr_window s else tl (rr_window s)) @ [rr_stored x s])"
        using full cnt by (simp add: BUFFER_SIZE_def)
    next
      fix i
      assume "i < length (rr_window ?s')"
      then have i: "i < 30" using cnt by simp
      show "rr_window ?s' ! i =
            ((if count s < BUFFER_SIZE then rr_window s else tl (rr_window s)) @ [rr_stored x s]) ! i"
      proof (cases "i = 29")
        case True
        have "(head s + 30) mod 30 = head s" using h by simp
        then show ?thesis
          using True full cnt len h
          by (simp add: rr_window_nth idx' addRRInterval_ring BUFFER_SIZE_def nth_append)
      next
        case False
        then have lt: "i + 1 < 30" using i by simp
        have ne: "(head s + (i + 1)) mod 30 \<noteq> head s"
        proof
          assume e: "(head s + (i + 1)) mod 30 = head s"
          show False
          proof (cases "head s + (i + 1) < 30")
            case True
            then show False using e by simp
          next
            case F: False
            then have "head s + (i + 1) - 30 < 30" using h lt by simp
            moreover have "(head s + (i + 1)) mod 30 = (head s + (i + 1) - 30) mod 30"
              using F by (simp add: le_mod_geq)
            ultimately have "head s + (i + 1) - 30 = head s" using e by simp
            then show False using F lt by simp
          qed
        qed
        have "tl (rr_window s) ! i = rr_window s ! (i + 1)"
          using lt full by (simp add: nth_tl)
        then show ?thesis
          using False i lt full cnt len ne
          by (simp add: rr_window_nth idx idx' addRRInterval_ring BUFFER_SIZE_def nth_append)
      qed
    qed
  qed
qed





section \<open>Beats per minute\<close>

subsection \<open>Index arithmetic of the peak ring\<close>

lemma ring_next_newest: "p < 10 \<Longrightarrow> ((p + 1) mod 10 + 10 - 1) mod 10 = (p :: nat)"
  by (cases "p = 9") simp_all

lemma ring_shift_curr:
  fixes p i :: nat
  assumes "p < 10" "1 \<le> i" "i \<le> 10"
  shows "((p + 1) mod 10 + 10 - i) mod 10 = (p + 10 - (i - 1)) mod 10"
proof (cases "p = 9")
  case True
  have "19 - (i - 1) = (10 - i) + 10" using assms by arith
  then have "(19 - (i - 1)) mod 10 = (10 - i) mod 10" by (simp only: mod_add_self2)
  then show ?thesis unfolding True by simp
next
  case False
  then have e1: "(p + 1) mod 10 = p + 1" using assms by simp
  have e2: "p + 1 + 10 - i = p + 10 - (i - 1)" using assms by arith
  show ?thesis unfolding e1 e2 ..
qed

lemma ring_shift_prev:
  fixes p i :: nat
  assumes "p < 10" "1 \<le> i" "i < 10"
  shows "((p + 1) mod 10 + 10 - i - 1) mod 10 = (p + 10 - i) mod 10"
proof (cases "p = 9")
  case True
  have "19 - i = (9 - i) + 10" using assms by arith
  then have "(19 - i) mod 10 = (9 - i) mod 10" by (simp only: mod_add_self2)
  then show ?thesis unfolding True by simp
next
  case False
  then have e1: "(p + 1) mod 10 = p + 1" using assms by simp
  have e2: "p + 1 + 10 - i - 1 = p + 10 - i" using assms by arith
  show ?thesis unfolding e1 e2 ..
qed

lemma ring_other:
  fixes p j :: nat
  assumes "p < 10" "1 \<le> j" "j \<le> 9"
  shows "(p + 10 - j) mod 10 \<noteq> p"
proof (cases "j \<le> p")
  case True
  then have "p + 10 - j = (p - j) + 10" by arith
  then have "(p + 10 - j) mod 10 = (p - j) mod 10" by (simp only: mod_add_self2)
  also have "\<dots> = p - j" using assms by simp
  finally show ?thesis using assms True by arith
next
  case False
  then have "p + 10 - j < 10" using assms by arith
  then have "(p + 10 - j) mod 10 = p + 10 - j" by simp
  then show ?thesis using assms by arith
qed

subsection \<open>Stored peaks are more than 300 ticks apart\<close>

lemma bpm_interval_eq:
  "bpm_interval s i =
     peakTimes s ! ((peakIndex s + 10 - i) mod 10) - peakTimes s ! ((peakIndex s + 10 - i - 1) mod 10)"
  by (simp add: bpm_interval_def Let_def PEAK_BUFFER_SIZE_def)

lemma peak_inv_cong:
  assumes "peakTimes s' = peakTimes s" "peakIndex s' = peakIndex s"
    and "peakCount s' = peakCount s" "lastPeakTime s' = lastPeakTime s"
  shows "peak_inv s' = peak_inv s"
  using assms by (simp add: peak_inv_def bpm_interval_def)

lemma peak_inv_init: "peak_inv hr_init"
  by (simp add: peak_inv_def hr_init_def PEAK_BUFFER_SIZE_def)

lemma peak_inv_wake: "peak_inv (wakeFromPowerOff s)"
  by (simp add: peak_inv_def wakeFromPowerOff_def PEAK_BUFFER_SIZE_def)

lemma peak_inv_gap:
  assumes "peak_inv s" and "1 \<le> i" and "i < peakCount s"
  shows "300 < bpm_interval s i"
  using assms unfolding peak_inv_def by blast

lemma peak_inv_store:
  assumes inv: "peak_inv s" and gap: "300 < t - lastPeakTime s"
    and u: "peakTimes u = peakTimes s" "peakIndex u = peakIndex s"
      "peakCount u = peakCount s" "lastPeakTime u = t"
  shows "peak_inv (store_peak t u)"
proof -
  define P where "P = peakTimes s"
  define p where "p = peakIndex s"
  define c where "c = peakCount s"
  let ?u' = "store_peak t u"
  have len: "length P = 10" and p: "p < 10" and c: "c \<le> 10"
    and pc: "c < 10 \<longrightarrow> p = c"
    and last: "0 < c \<longrightarrow> lastPeakTime s = P ! ((p + 10 - 1) mod 10)"
    using inv by (simp_all add: peak_inv_def PEAK_BUFFER_SIZE_def P_def p_def c_def)
  have f: "peakTimes ?u' = P[p := t]" "peakIndex ?u' = (p + 1) mod 10"
    "peakCount ?u' = (if c < 10 then c + 1 else c)" "lastPeakTime ?u' = t"
    by (simp_all add: store_peak_def u PEAK_BUFFER_SIZE_def P_def p_def c_def)
  have c': "peakCount ?u' \<le> c + 1" by (simp add: f)
  have i1: "length (peakTimes ?u') = PEAK_BUFFER_SIZE"
    by (simp add: f len PEAK_BUFFER_SIZE_def)
  have i2: "peakIndex ?u' < PEAK_BUFFER_SIZE"
    by (simp add: f PEAK_BUFFER_SIZE_def)
  have i3: "peakCount ?u' \<le> PEAK_BUFFER_SIZE"
    using c by (simp add: f PEAK_BUFFER_SIZE_def)
  have i4: "peakCount ?u' < PEAK_BUFFER_SIZE \<longrightarrow> peakIndex ?u' = peakCount ?u'"
    using pc c by (simp add: f PEAK_BUFFER_SIZE_def)
  have newest: "peakTimes ?u' ! ((peakIndex ?u' + 10 - 1) mod 10) = t"
    using p len by (simp only: f ring_next_newest [OF p]) simp
  have i5: "0 < peakCount ?u' \<longrightarrow>
      lastPeakTime ?u' = peakTimes ?u' ! ((peakIndex ?u' + PEAK_BUFFER_SIZE - 1) mod PEAK_BUFFER_SIZE)"
    using newest by (simp add: f PEAK_BUFFER_SIZE_def)
  have i6: "300 < bpm_interval ?u' i" if i: "1 \<le> i" "i < peakCount ?u'" for i
  proof (cases "i = 1")
    case True
    have cpos: "0 < c" using i True by (simp add: f split: if_splits)
    have prev: "(peakIndex ?u' + 10 - 1 - 1) mod 10 = (p + 10 - 1) mod 10"
      unfolding f using ring_shift_prev [OF p, of 1] by simp
    have ne: "(p + 10 - 1) mod 10 \<noteq> p"
      using ring_other [OF p, of 1] by simp
    have "peakTimes ?u' ! ((p + 10 - 1) mod 10) = P ! ((p + 10 - 1) mod 10)"
      unfolding f using ne by simp
    then have "bpm_interval ?u' 1 = t - lastPeakTime s"
      using newest prev last cpos by (simp add: bpm_interval_eq)
    then show ?thesis using gap True by simp
  next
    case False
    then have i2: "2 \<le> i" using i by simp
    have i9: "i \<le> 9" using i c by (simp add: f split: if_splits)
    have old: "i - 1 < c" "1 \<le> i - 1" using i i2 c' by simp_all
    have curr: "(peakIndex ?u' + 10 - i) mod 10 = (p + 10 - (i - 1)) mod 10"
      unfolding f using i2 i9 by (intro ring_shift_curr [OF p]) simp_all
    have prev: "(peakIndex ?u' + 10 - i - 1) mod 10 = (p + 10 - i) mod 10"
      unfolding f using i2 i9 by (intro ring_shift_prev [OF p]) simp_all
    have ne1: "(p + 10 - (i - 1)) mod 10 \<noteq> p"
      using i2 i9 by (intro ring_other [OF p]) simp_all
    have ne2: "(p + 10 - i) mod 10 \<noteq> p"
      using i2 i9 by (intro ring_other [OF p]) simp_all
    have e: "peakIndex s + 10 - (i - 1) - 1 = peakIndex s + 10 - i" using i2 by arith
    have "bpm_interval ?u' i =
        P[p := t] ! ((p + 10 - (i - 1)) mod 10) - P[p := t] ! ((p + 10 - i) mod 10)"
      unfolding bpm_interval_eq curr prev by (simp only: f)
    also have "\<dots> = P ! ((p + 10 - (i - 1)) mod 10) - P ! ((p + 10 - i) mod 10)"
      using ne1 ne2 by simp
    also have "\<dots> = bpm_interval s (i - 1)"
      unfolding P_def p_def bpm_interval_eq e ..
    finally show ?thesis
      using peak_inv_gap [OF inv old(2)] old(1) by (simp add: c_def)
  qed
  show ?thesis
    unfolding peak_inv_def using i1 i2 i3 i4 i5 i6 by blast
qed

lemma extract_rr_peak_fields:
  "peakTimes (extract_rr t s) = peakTimes s"
  "peakIndex (extract_rr t s) = peakIndex s"
  "peakCount (extract_rr t s) = peakCount s"
  "lastPeakTime (extract_rr t s) = lastPeakTime s"
  "currentBPM (extract_rr t s) = currentBPM s"
  by (simp_all add: extract_rr_checked addRRInterval_peak_fields)

lemma peak_inv_before_bpm:
  assumes "peak_inv s" and "300 < t - lastPeakTime s"
  shows "peak_inv (store_peak t (extract_rr t (s\<lparr>peakDetected := True, lastPeakTime := t\<rparr>)))"
  by (rule peak_inv_store [OF assms]) (simp_all add: extract_rr_peak_fields)

lemma peak_inv_onBeat:
  assumes "peak_inv s" and "300 < t - lastPeakTime s"
  shows "peak_inv (onBeat t s)"
proof -
  have "peak_inv (onBeat t s) =
        peak_inv (store_peak t (extract_rr t (s\<lparr>peakDetected := True, lastPeakTime := t\<rparr>)))"
    unfolding onBeat_def by (rule peak_inv_cong) (simp_all add: calculateBPM_fields)
  then show ?thesis using peak_inv_before_bpm [OF assms] by simp
qed

lemma peak_inv_update_threshold:
  "peak_inv (update_threshold irValue minValue maxValue s) = peak_inv s"
  by (rule peak_inv_cong) (simp_all add: update_threshold_def)

lemma peak_inv_detect:
  assumes "peak_inv s"
  shows "peak_inv (detectPeakAndCalculateBPM irValue minValue maxValue t s)"
proof (cases "beat_detected irValue t (update_threshold irValue minValue maxValue s)")
  case True
  let ?s1 = "update_threshold irValue minValue maxValue s"
  have gap: "300 < t - lastPeakTime ?s1" using True by (simp add: beat_detected_def)
  have "peak_inv ?s1" using assms by (simp add: peak_inv_update_threshold)
  then have "peak_inv (onBeat t ?s1)" using gap by (rule peak_inv_onBeat)
  moreover have "peak_inv ((onBeat t ?s1)\<lparr>lastValue := irValue\<rparr>) = peak_inv (onBeat t ?s1)"
    by (rule peak_inv_cong) simp_all
  ultimately show ?thesis by (simp add: detect_on_beat [OF True])
next
  case False
  let ?s1 = "update_threshold irValue minValue maxValue s"
  have "peak_inv (?s1\<lparr>peakDetected := (if irValue < lastValue s then False else peakDetected s),
            lastValue := irValue\<rparr>) = peak_inv ?s1"
    by (rule peak_inv_cong) simp_all
  then show ?thesis
    using assms by (simp add: detect_no_beat [OF False] peak_inv_update_threshold)
qed

lemma hr_reachable_peak_inv: "hr_reachable s \<Longrightarrow> peak_inv s"
  by (induction rule: hr_reachable.induct)
     (simp_all add: peak_inv_init peak_inv_detect peak_inv_wake)

subsection \<open>The averaging loop\<close>

lemma bpm_step_valid:
  assumes "300 < bpm_interval s i"
  shows "bpm_step s acc i =
     (if valid_interval (unat (bpm_interval s i))
      then (fst acc + bpm_interval s i, snd acc + 1) else acc)"
proof -
  have "300 < unat (bpm_interval s i)"
    using assms by (simp add: word_less_nat_alt)
  then show ?thesis
    by (simp add: bpm_step_def Let_def valid_interval_def word_less_nat_alt)
qed

text \<open>
  The loop itself skips an interval of exactly 250 ticks; such an interval is never
  stored, since a beat is accepted only more than 300 ticks after the previous one.
\<close>

lemma bpm_step_at_250: "bpm_interval s i = 250 \<Longrightarrow> bpm_step s acc i = acc"
  by (simp add: bpm_step_def)

lemma bpm_fold:
  assumes "\<forall>i \<in> set js. 300 < bpm_interval s i"
  shows "foldl (bpm_step s) acc js =
     (fst acc + of_nat (sum_list (filter valid_interval (map (\<lambda>i. unat (bpm_interval s i)) js))),
      snd acc + int (length (filter valid_interval (map (\<lambda>i. unat (bpm_interval s i)) js))))"
  using assms
proof (induction js arbitrary: acc)
  case Nil
  then show ?case by simp
next
  case (Cons j js)
  then have gap: "300 < bpm_interval s j" and rest: "\<forall>i \<in> set js. 300 < bpm_interval s i"
    by simp_all
  show ?case
    by (simp add: bpm_step_valid [OF gap] Cons.IH [OF rest] add.assoc)
qed

lemma sum_list_valid_bound:
  "sum_list (filter valid_interval ds) \<le> 2000 * length ds"
  by (induction ds) (simp_all add: valid_interval_def)

lemma peak_intervals_length [simp]: "length (peak_intervals s) = peakCount s - 1"
  by (simp add: peak_intervals_def)

lemma calculateBPM_spec:
  assumes inv: "peak_inv s" and three: "3 \<le> peakCount s"
  shows "currentBPM (calculateBPM s) = bpm_spec (currentBPM s) (peak_intervals s)"
proof -
  define vs where "vs = filter valid_interval (peak_intervals s)"
  have gaps: "\<forall>i \<in> set [1..<peakCount s]. 300 < bpm_interval s i"
    using peak_inv_gap [OF inv] by simp
  have fold: "foldl (bpm_step s) (0, 0) [1..<peakCount s] = (of_nat (sum_list vs), int (length vs))"
    using bpm_fold [OF gaps, of "(0, 0)"] by (simp add: vs_def peak_intervals_def)
  have "peakCount s \<le> 10" using inv by (simp add: peak_inv_def PEAK_BUFFER_SIZE_def)
  then have "2000 * length (peak_intervals s) \<le> 18000" by simp
  then have "sum_list vs \<le> 18000"
    using sum_list_valid_bound [of "peak_intervals s"] unfolding vs_def by linarith
  then have total: "unat (of_nat (sum_list vs) :: 32 word) = sum_list vs"
    by (simp add: unat_of_nat)
  show ?thesis
  proof (cases "vs = []")
    case True
    then show ?thesis
      using three fold by (simp add: calculateBPM_def bpm_spec_def Let_def vs_def [symmetric])
  next
    case False
    then have "0 < int (length vs)" by simp
    then show ?thesis
      using three fold total False
      by (simp add: calculateBPM_def bpm_spec_def Let_def vs_def [symmetric])
  qed
qed

lemma bpm_spec_beats_3: "bpm_spec 0 [1100, 1000] = 400 / 7"
  by (simp add: bpm_spec_def valid_interval_def Let_def)

lemma peak_intervals_beats_3: "peak_intervals beats_3 = [1100, 1000]"
proof -
  have "[1..<3] = [1, 2 :: nat]" by (simp add: upt_rec)
  then show ?thesis
    by (simp add: peak_intervals_def bpm_interval_eq beats_3_peaks)
qed

text \<open>
  C6.  On a detected beat that leaves at least three peak times recorded, the BPM
  is 60000 divided by the mean of the consecutive peak-to-peak intervals within
  \<open>[250, 2000)\<close>; a result below 40 or above 200 is reported as 0; without an
  interval in range the previous BPM stays.  Consecutive recorded peaks are more
  than 300 ticks apart.
\<close>

theorem bpm_correct:
  assumes "hr_reachable s"
    and "beat_detected irValue t (update_threshold irValue minValue maxValue s)"
  shows "(3 \<le> peakCount (detectPeakAndCalculateBPM irValue minValue maxValue t s) \<longrightarrow>
            currentBPM (detectPeakAndCalculateBPM irValue minValue maxValue t s) =
              bpm_spec (currentBPM s)
                (peak_intervals (detectPeakAndCalculateBPM irValue minValue maxValue t s))) \<and>
         (\<forall>d \<in> set (peak_intervals (detectPeakAndCalculateBPM irValue minValue maxValue t s)).
            300 < d)"
proof -
  let ?s1 = "update_threshold irValue minValue maxValue s"
  let ?u = "store_peak t (extract_rr t (?s1\<lparr>peakDetected := True, lastPeakTime := t\<rparr>))"
  let ?s' = "detectPeakAndCalculateBPM irValue minValue maxValue t s"
  have s': "?s' = (calculateBPM ?u)\<lparr>lastValue := irValue\<rparr>"
    by (simp add: detect_on_beat [OF assms(2)] onBeat_def)
  have inv1: "peak_inv ?s1"
    using hr_reachable_peak_inv [OF assms(1)] by (simp add: peak_inv_update_threshold)
  have gap: "300 < t - lastPeakTime ?s1" using assms(2) by (simp add: beat_detected_def)
  have inv_u: "peak_inv ?u" by (rule peak_inv_before_bpm [OF inv1 gap])
  have bpm_u: "currentBPM ?u = currentBPM s"
    by (simp add: store_peak_def extract_rr_peak_fields update_threshold_def)
  have cnt: "peakCount ?s' = peakCount ?u"
    by (simp add: s' calculateBPM_fields)
  have ivs: "peak_intervals ?s' = peak_intervals ?u"
    by (simp add: s' peak_intervals_def bpm_interval_def calculateBPM_fields)
  have first: "3 \<le> peakCount ?s' \<longrightarrow> currentBPM ?s' = bpm_spec (currentBPM s) (peak_intervals ?s')"
  proof
    assume "3 \<le> peakCount ?s'"
    then have "3 \<le> peakCount ?u" by (simp only: cnt)
    then have "currentBPM (calculateBPM ?u) = bpm_spec (currentBPM ?u) (peak_intervals ?u)"
      by (rule calculateBPM_spec [OF inv_u])
    then show "currentBPM ?s' = bpm_spec (currentBPM s) (peak_intervals ?s')"
      by (simp add: s' ivs [unfolded s'] bpm_u)
  qed
  have second: "\<forall>d \<in> set (peak_intervals ?s'). 300 < d"
  proof
    fix d
    assume "d \<in> set (peak_intervals ?s')"
    then obtain i where i: "1 \<le> i" "i < peakCount ?u" and d: "d = unat (bpm_interval ?u i)"
      unfolding ivs by (auto simp: peak_intervals_def)
    have "300 < bpm_interval ?u i" by (rule peak_inv_gap [OF inv_u i])
    then show "300 < d" by (simp add: d word_less_nat_alt)
  qed
  show ?thesis using first second by blast
qed

text \<open>
  The third beat of the run at ticks 1000, 2000 and 3100: the intervals are 1100 and
  1000, their mean is 1050 and the BPM is \<open>60000 / 1050 = 400 / 7\<close>.
\<close>

theorem bpm_correct_witness:
  "peakCount beats_3 = 3 \<and> peak_intervals beats_3 = [1100, 1000] \<and>
   currentBPM beats_2_low = 0 \<and> currentBPM beats_3 = 400 / 7"
proof -
  have b: "currentBPM beats_2_low = 0"
    by (simp add: beats_2_low_eq hr_init_def)
  have "currentBPM beats_3 = bpm_spec (currentBPM beats_2_low) (peak_intervals beats_3)"
    using bpm_correct [OF hr_reachable_beats_2_low beats_2_low_beat]
    by (simp add: beats_3_def [symmetric] beats_3_peaks)
  then show ?thesis
    by (simp add: b peak_intervals_beats_3 bpm_spec_beats_3 beats_3_peaks)
qed

end
